theory Spec2Isabelle
  imports Complex_Main
begin

section \<open>Python and numpy primitives\<close>

text \<open>
  Exceptions of the Python source are values. Arrays of floats are modelled over the
  reals: rounding error is not represented.
\<close>

datatype py_error = ValueError | IndexError | ZeroDivisionError | OverflowError

text \<open>\<^verbatim>\<open>range(n)\<close> on Python integers: empty when \<open>n \<le> 0\<close>.\<close>

definition py_range :: "int \<Rightarrow> int list" where
  "py_range n = [0..n - 1]"

text \<open>
  \<^verbatim>\<open>[ops[i:i + cs] for i in range(0, len(ops), cs)]\<close> for a step \<open>cs \<ge> 1\<close>: the slice
  starting at \<open>i = j * cs\<close> holds at most \<open>cs\<close> items, and there are
  \<open>\<lceil>len(ops) / cs\<rceil>\<close> start positions.
\<close>

definition chunk_slices :: "'a list \<Rightarrow> nat \<Rightarrow> 'a list list" where
  "chunk_slices ops cs =
     map (\<lambda>j. take cs (drop (j * cs) ops)) [0..<(length ops + cs - 1) div cs]"

text \<open>
  \<^verbatim>\<open>xs[i]\<close> on a list, or on the first axis of an array: positions \<open>0 \<dots> len - 1\<close>
  are read directly, positions \<open>-len \<dots> -1\<close> are read from the end, and every other
  position raises \<^verbatim>\<open>IndexError\<close>.
\<close>

definition py_get :: "'a list \<Rightarrow> int \<Rightarrow> py_error + 'a" where
  "py_get xs i =
     (if 0 \<le> i \<and> i < int (length xs) then Inr (xs ! nat i)
      else if - int (length xs) \<le> i \<and> i < 0 then Inr (xs ! nat (int (length xs) + i))
      else Inl IndexError)"

text \<open>\<^verbatim>\<open>int(x)\<close> on a float truncates towards zero.\<close>

definition py_int :: "real \<Rightarrow> int" where
  "py_int x = (if 0 \<le> x then \<lfloor>x\<rfloor> else \<lceil>x\<rceil>)"

text \<open>\<^verbatim>\<open>round(x)\<close> and \<^verbatim>\<open>np.round(x)\<close> round to the nearest integer, ties to the even one.\<close>

definition py_round :: "real \<Rightarrow> int" where
  "py_round x =
     (let f = \<lfloor>x\<rfloor>; d = x - of_int f
      in if d < 1 / 2 then f else if 1 / 2 < d then f + 1
         else if even f then f else f + 1)"

text \<open>
  \<^verbatim>\<open>np.linspace(start, stop, num)\<close>: a negative \<open>num\<close> raises, \<open>num = 0\<close> gives
  the empty array, \<open>num = 1\<close> gives \<open>[start]\<close>, and otherwise the step is
  \<open>(stop - start) / (num - 1)\<close>. The points are computed by \<open>linspace_points\<close>, for
  the calls whose \<open>num\<close> is an array length.
\<close>

definition linspace_points :: "real \<Rightarrow> real \<Rightarrow> nat \<Rightarrow> real list" where
  "linspace_points start stop num =
     (if num = 1 then [start]
      else map (\<lambda>i. start + real i * ((stop - start) / (real num - 1))) [0..<num])"

definition linspace :: "real \<Rightarrow> real \<Rightarrow> int \<Rightarrow> py_error + real list" where
  "linspace start stop num =
     (if num < 0 then Inl ValueError else Inr (linspace_points start stop (nat num)))"

subsection \<open>Vectors of reciprocal space\<close>

text \<open>The points and directions of the k-path are arrays of three floats.\<close>

type_synonym vec3 = "real \<times> real \<times> real"

fun components :: "vec3 \<Rightarrow> real list" where
  "components (x, y, z) = [x, y, z]"

fun dot :: "vec3 \<Rightarrow> vec3 \<Rightarrow> real" where
  "dot (a0, a1, a2) (b0, b1, b2) = a0 * b0 + a1 * b1 + a2 * b2"

fun vsub :: "vec3 \<Rightarrow> vec3 \<Rightarrow> vec3" where
  "vsub (a0, a1, a2) (b0, b1, b2) = (a0 - b0, a1 - b1, a2 - b2)"

fun vadd :: "vec3 \<Rightarrow> vec3 \<Rightarrow> vec3" where
  "vadd (a0, a1, a2) (b0, b1, b2) = (a0 + b0, a1 + b1, a2 + b2)"

fun vscale :: "real \<Rightarrow> vec3 \<Rightarrow> vec3" where
  "vscale c (a0, a1, a2) = (c * a0, c * a1, c * a2)"

fun vdiv :: "vec3 \<Rightarrow> real \<Rightarrow> vec3" where
  "vdiv (a0, a1, a2) c = (a0 / c, a1 / c, a2 / c)"

text \<open>\<^verbatim>\<open>np.linalg.norm\<close> of a vector.\<close>

definition norm3 :: "vec3 \<Rightarrow> real" where
  "norm3 v = sqrt (dot v v)"

section \<open>Direction tables\<close>

text \<open>
  One entry of \<^verbatim>\<open>e_k_dict\<close> per family (100), (110), (111). The fields are the keys
  \<^verbatim>\<open>'scale'\<close>, \<^verbatim>\<open>'N_bun'\<close>, \<^verbatim>\<open>'positive_dir'\<close> and \<^verbatim>\<open>'origin_bun'\<close>.
\<close>

record direction_entry =
  tbl_scale :: real
  tbl_N_bun :: int
  positive_dir :: "vec3 list"
  tbl_origin_bun :: "vec3 list"

definition l_110 :: real where
  "l_110 = 1 / sqrt 2"

definition l_111 :: real where
  "l_111 = 1 / sqrt 3"

definition e_k_dict :: "direction_entry list" where
  "e_k_dict =
     [\<lparr>tbl_scale = 1, tbl_N_bun = 1,
       positive_dir = [(1, 0, 0), (0, 1, 0), (0, 0, 1)],
       tbl_origin_bun = [(0, 0, 0), (1 / 2, 1 / 2, 1 / 2)]\<rparr>,
      \<lparr>tbl_scale = l_110, tbl_N_bun = 1,
       positive_dir = [(l_110, l_110, 0), (l_110, - l_110, 0), (0, l_110, l_110),
                       (0, l_110, - l_110), (l_110, 0, l_110), (- l_110, 0, l_110)],
       tbl_origin_bun = [(0, 0, 0), (1 / 2, 1 / 2, 1 / 2)]\<rparr>,
      \<lparr>tbl_scale = l_111, tbl_N_bun = 1,
       positive_dir = [(l_111, l_111, l_111), (l_111, l_111, - l_111),
                       (l_111, - l_111, l_111), (l_111, - l_111, - l_111)],
       tbl_origin_bun = [(0, 0, 0), (1 / 2, 1 / 2, 1 / 2)]\<rparr>]"

section \<open>Direction classifier\<close>

text \<open>
  \<^verbatim>\<open>set_index(e_k)\<close>. \<^verbatim>\<open>np.min\<close> of the empty selection (the zero vector) raises
  \<^verbatim>\<open>ValueError\<close>. The label is \<^verbatim>\<open>int(np.sum(np.abs(index)) - 1)\<close>.
\<close>

definition set_index :: "vec3 \<Rightarrow> py_error + (vec3 \<times> int)" where
  "set_index e_k =
     (let abs_e_k = map abs (components e_k);
          abs_e_k_non_zero = filter (\<lambda>x. x \<noteq> 0) abs_e_k
      in if abs_e_k_non_zero = [] then Inl ValueError
         else let min_non_zero = Min (set abs_e_k_non_zero);
                  index = vdiv e_k min_non_zero;
                  label = py_int (sum_list (map abs (components index)) - 1)
              in Inr (index, label))"

section \<open>Segment builder\<close>

text \<open>The dictionary returned by \<^verbatim>\<open>k_path_segment\<close>, one field per key.\<close>

record k_segment =
  dir :: int
  scale :: real
  dir_k :: vec3
  indices :: vec3
  pos_k :: vec3
  kappa_12 :: "real \<times> real"
  r_par_sign :: int
  dk :: real
  rot_angle :: "real \<times> real"
  k_perp_basis :: "vec3 \<times> vec3 \<times> vec3"
  N_bun :: int
  origin_bun :: "vec3 list"
  kappa :: "real list"
  phi_folded :: "real list"

definition closest :: "real \<Rightarrow> int" where
  "closest x = py_int (real_of_int (py_round x))"

text \<open>
  The loop over \<^verbatim>\<open>positive_dir\<close>: every row whose dot product with the direction
  exceeds \<open>0.99999\<close> in absolute value overwrites the sign, so the last such row wins.
\<close>

definition direction_sign :: "vec3 \<Rightarrow> vec3 list \<Rightarrow> int" where
  "direction_sign e_k vectors =
     foldl (\<lambda>sign v. let dot_product = dot e_k v
                      in if 99999 / 100000 < \<bar>dot_product\<bar> then py_round dot_product else sign)
       1 vectors"

text \<open>
  \<^verbatim>\<open>k_path_segment(k1, k2, e_k_dict, dk_set)\<close>. Two float effects are written out as
  failures. For coincident endpoints \<^verbatim>\<open>e_k /= norm_k\<close> fills the direction with NaN,
  and \<^verbatim>\<open>set_index\<close> then raises \<^verbatim>\<open>ValueError\<close> at \<^verbatim>\<open>int(nan)\<close>. For
  \<open>dk_set = 0\<close> the quotient is infinite and \<^verbatim>\<open>int(np.round(inf))\<close> raises
  \<^verbatim>\<open>OverflowError\<close>. A sample count of zero raises nothing: numpy stores a non-finite
  \<^verbatim>\<open>dk\<close> (only a warning is printed) where the model stores \<open>x / 0\<close>, and the sample
  grid is empty.
\<close>

definition k_path_segment ::
    "vec3 \<Rightarrow> vec3 \<Rightarrow> direction_entry list \<Rightarrow> real \<Rightarrow> py_error + k_segment" where
  "k_path_segment k1 k2 table dk_set =
     (let norm_k = norm3 (vsub k2 k1)
      in if norm_k = 0 then Inl ValueError
         else
           let e_k = vdiv (vsub k2 k1) norm_k
           in case set_index e_k of
                Inl err \<Rightarrow> Inl err
              | Inr (index, label) \<Rightarrow>
                  (case py_get table label of
                     Inl err \<Rightarrow> Inl err
                   | Inr entry \<Rightarrow>
                       let sign = direction_sign e_k (positive_dir entry);
                           kappa_1 = dot k1 e_k;
                           kappa_2 = dot k2 e_k;
                           k_0 = vsub k1 (vscale kappa_1 e_k)
                       in if dk_set = 0 then Inl OverflowError
                          else
                            let N_k = closest ((kappa_2 - kappa_1) / dk_set);
                                dk_real = (kappa_2 - kappa_1) / real_of_int N_k
                            in (case linspace kappa_1 (kappa_2 - dk_real) N_k of
                                 Inl err \<Rightarrow> Inl err
                               | Inr kappa_s \<Rightarrow>
                                   let angle =
                                         (if label = 0 then (0, 0)
                                          else (case e_k of (e0, e1, e2) \<Rightarrow>
                                            (- arcsin (real_of_int sign * e1 / sqrt (e0\<^sup>2 + e1\<^sup>2)),
                                             - arcsin (real_of_int sign * e2))));
                                       k_perp_basis =
                                         (if label = 0 then ((1, 0, 0), (0, 1, 0), (0, 0, 1))
                                          else
                                            ((cos (snd angle) * cos (fst angle),
                                              - cos (snd angle) * sin (fst angle),
                                              - sin (snd angle)),
                                             (sin (fst angle), cos (fst angle), 0),
                                             (sin (snd angle) * cos (fst angle),
                                              - sin (snd angle) * sin (fst angle),
                                              cos (snd angle))))
                                   in Inr \<lparr>dir = label,
                                           scale = tbl_scale entry,
                                           dir_k = e_k,
                                           indices = index,
                                           pos_k = k_0,
                                           kappa_12 = (kappa_1, kappa_2),
                                           r_par_sign = sign,
                                           dk = dk_real,
                                           rot_angle = angle,
                                           k_perp_basis = k_perp_basis,
                                           N_bun = tbl_N_bun entry,
                                           origin_bun = tbl_origin_bun entry,
                                           kappa = kappa_s,
                                           phi_folded = replicate (nat N_k) 0\<rparr>)))"

section \<open>Work items of the projection driver\<close>

text \<open>
  In \<^verbatim>\<open>bse\<close>, a (110) segment's work list is
  \<^verbatim>\<open>[(b, l) for b in range(bundles) for l in range(2 * Nyq + 1 - b)]\<close>, a (111)
  segment's is
  \<^verbatim>\<open>[(b, w, l) for b in range(bundles) for w in range(2 * Nyq + 1 - b) for l in range(w + 1)]\<close>
  and a (100) segment's is \<^verbatim>\<open>range(bundles)\<close>.
\<close>

definition tensordot_operations :: "int \<Rightarrow> int \<Rightarrow> (int \<times> int) list" where
  "tensordot_operations bundles Nyq =
     [(b, l). b \<leftarrow> py_range bundles, l \<leftarrow> py_range (2 * Nyq + 1 - b)]"

definition bundle_width_layer_combinations :: "int \<Rightarrow> int \<Rightarrow> (int \<times> int \<times> int) list" where
  "bundle_width_layer_combinations bundles Nyq =
     [(b, w, l). b \<leftarrow> py_range bundles, w \<leftarrow> py_range (2 * Nyq + 1 - b), l \<leftarrow> py_range (w + 1)]"

text \<open>
  The split of a work list into the chunks handed to \<^verbatim>\<open>process_bundle_chunk_*\<close>.
  \<^verbatim>\<open>cores_to_use = min(n_cores, num)\<close> and
  \<^verbatim>\<open>chunk_size = max(1, num // cores_to_use)\<close>; the floor division raises when the work
  list is empty. The (100) and (110) loops run every item as a chunk of its own when
  there is at most one item, the (111) loop always takes the slices.
\<close>

definition chunks_100_110 :: "int \<Rightarrow> 'a list \<Rightarrow> py_error + 'a list list" where
  "chunks_100_110 n_cores ops =
     (let num = int (length ops);
          cores_to_use = min n_cores num
      in if cores_to_use = 0 then Inl ZeroDivisionError
         else let chunk_size = max 1 (num div cores_to_use)
              in if num > 1 then Inr (chunk_slices ops (nat chunk_size))
                 else Inr (map (\<lambda>x. [x]) ops))"

definition chunks_111 :: "int \<Rightarrow> 'a list \<Rightarrow> py_error + 'a list list" where
  "chunks_111 n_cores ops =
     (let num = int (length ops);
          cores_to_use = min n_cores num
      in if cores_to_use = 0 then Inl ZeroDivisionError
         else let chunk_size = max 1 (num div cores_to_use)
              in Inr (chunk_slices ops (nat chunk_size)))"

section \<open>Wavefunction reorienter\<close>

text \<open>
  The field \<^verbatim>\<open>psi\<close> and the coordinate ramps are numpy arrays, which Python passes by
  reference, and \<^verbatim>\<open>rotate_psi\<close> writes to one of them in place
  (\<^verbatim>\<open>r_par *= sign\<close>). The store is a list of objects and an address is a position in
  it; a new array is put at the end.

  \<^verbatim>\<open>scipy.ndimage.rotate\<close> is a library function: it is a parameter of the model,
  together with the \<^verbatim>\<open>shape\<close> attribute of the array type. As its documentation says,
  it returns a new array and leaves its input alone, so it is a function on array values.
\<close>

datatype 'a obj = Field 'a | Ramp "real list"

record 'a array_lib =
  nd_rotate :: "'a \<Rightarrow> real \<Rightarrow> nat \<times> nat \<Rightarrow> 'a"
  nd_shape :: "'a \<Rightarrow> nat \<times> nat \<times> nat"

definition alloc :: "'a obj list \<Rightarrow> 'a obj \<Rightarrow> 'a obj list \<times> nat" where
  "alloc h v = (h @ [v], length h)"

text \<open>\<^verbatim>\<open>np.linspace(0, n - 1, n)\<close> for an axis length \<open>n\<close>.\<close>

definition axis_ramp :: "nat \<Rightarrow> real list" where
  "axis_ramp n = linspace_points 0 (real n - 1) n"

definition degrees :: "real \<Rightarrow> real" where
  "degrees x = x * 180 / pi"

text \<open>
  The three coordinate ramps computed from the shape of the reoriented field, as both
  reorienters do after rotating: three new arrays.
\<close>

definition shape_ramps :: "'a obj list \<Rightarrow> nat \<times> nat \<times> nat \<Rightarrow> 'a obj list \<times> nat \<times> nat \<times> nat" where
  "shape_ramps h shp =
     (case shp of (N_par, N_perp_0, N_perp_1) \<Rightarrow>
        let (h1, r_par) = alloc h (Ramp (axis_ramp N_par));
            (h2, r_perp_0) = alloc h1 (Ramp (axis_ramp N_perp_0));
            (h3, r_perp_1) = alloc h2 (Ramp (axis_ramp N_perp_1))
        in (h3, r_par, r_perp_0, r_perp_1))"

text \<open>\<^verbatim>\<open>r_par *= sign\<close>: the array at the address is overwritten.\<close>

definition scale_in_place :: "'a obj list \<Rightarrow> nat \<Rightarrow> int \<Rightarrow> 'a obj list" where
  "scale_in_place h a sign =
     (case h ! a of
        Ramp r \<Rightarrow> h[a := Ramp (map (\<lambda>x. x * real_of_int sign) r)]
      | Field v \<Rightarrow> h)"

text \<open>
  \<^verbatim>\<open>rotate_psi(psi, k_segment)\<close>, with \<open>psi\<close> the address of the field. The result is
  the new store and the returned tuple \<^verbatim>\<open>(psi_rot, r_par, r_perp_0, r_perp_1, axis_id)\<close>
  of four addresses and the axis assignment. \<open>None\<close> stands for a call whose argument
  is not a field of the store. The chained assignment
  \<^verbatim>\<open>r_par = r_perp_0 = r_perp_1 = np.linspace(0, N - 1, N)\<close> binds the three names to
  one array.
\<close>

definition rotate_psi ::
    "'a array_lib \<Rightarrow> 'a obj list \<Rightarrow> nat \<Rightarrow> k_segment \<Rightarrow>
     ('a obj list \<times> nat \<times> nat \<times> nat \<times> nat \<times> nat \<times> nat \<times> nat) option" where
  "rotate_psi lib h psi k_segment =
     (if length h \<le> psi then None
      else case h ! psi of
        Ramp r \<Rightarrow> None
      | Field psi_v \<Rightarrow>
          let (h1, psi_rot) = alloc h (Field psi_v);
              N = fst (nd_shape lib psi_v);
              (h2, r) = alloc h1 (Ramp (axis_ramp N));
              direction = dir k_segment
          in case dir_k k_segment of (d0, d1, d2) \<Rightarrow>
             let axis_id =
                   (if direction = 0 then
                      (if 999999 / 1000000 < \<bar>d1\<bar> then (1, 0, 2)
                       else if 999999 / 1000000 < \<bar>d2\<bar> then (2, 1, 0)
                       else (0, 1, 2))
                    else (0, 1, 2));
                 (h5, psi_rot, r_par, r_perp_0, r_perp_1) =
                   (if direction = 1 then
                      let angle_1 = degrees (fst (rot_angle k_segment));
                          angle_2 = degrees (snd (rot_angle k_segment));
                          (h3, psi_rot, psi_rot_v) =
                            (if \<bar>d2\<bar> < 1 / 1000000 then
                               let v = nd_rotate lib psi_v angle_1 (0, 1);
                                   (h3, a) = alloc h2 (Field v)
                               in (h3, a, v)
                             else if \<bar>d1\<bar> < 1 / 1000000 then
                               let v = nd_rotate lib psi_v angle_2 (0, 2);
                                   (h3, a) = alloc h2 (Field v)
                               in (h3, a, v)
                             else if \<bar>d0\<bar> < 1 / 1000000 then
                               let psi_i_v = nd_rotate lib psi_v angle_1 (0, 1);
                                   (h3, psi_i) = alloc h2 (Field psi_i_v);
                                   v = nd_rotate lib psi_i_v angle_2 (0, 2);
                                   (h4, a) = alloc h3 (Field v)
                               in (h4, a, v)
                             else (h2, psi_rot, psi_v));
                          (h4, r_par, r_perp_0, r_perp_1) = shape_ramps h3 (nd_shape lib psi_rot_v)
                      in (h4, psi_rot, r_par, r_perp_0, r_perp_1)
                    else (h2, psi_rot, r, r, r))
             in Some (scale_in_place h5 r_par (r_par_sign k_segment),
                      psi_rot, r_par, r_perp_0, r_perp_1, axis_id))"

text \<open>\<^verbatim>\<open>rotate_psi_111(psi, k_segment)\<close>: always two rotations, each angle times the sign.\<close>

definition rotate_psi_111 ::
    "'a array_lib \<Rightarrow> 'a obj list \<Rightarrow> nat \<Rightarrow> k_segment \<Rightarrow>
     ('a obj list \<times> nat \<times> nat \<times> nat \<times> nat \<times> nat \<times> nat \<times> nat) option" where
  "rotate_psi_111 lib h psi k_segment =
     (if length h \<le> psi then None
      else case h ! psi of
        Ramp r \<Rightarrow> None
      | Field psi_v \<Rightarrow>
          let angle_1 = degrees (fst (rot_angle k_segment));
              angle_2 = degrees (snd (rot_angle k_segment));
              sign = r_par_sign k_segment;
              psi_i_v = nd_rotate lib psi_v (real_of_int sign * angle_1) (0, 1);
              (h1, psi_i) = alloc h (Field psi_i_v);
              psi_rot_v = nd_rotate lib psi_i_v (real_of_int sign * angle_2) (0, 2);
              (h2, psi_rot) = alloc h1 (Field psi_rot_v);
              axis_id = (0, 1, 2);
              (h3, r_par, r_perp_0, r_perp_1) = shape_ramps h2 (nd_shape lib psi_rot_v)
          in Some (scale_in_place h3 r_par sign, psi_rot, r_par, r_perp_0, r_perp_1, axis_id))"

text \<open>
  A library instance that records the calls: an array value is the list of rotations
  applied to the input so far.
\<close>

definition trace_lib :: "(real \<times> nat \<times> nat) list array_lib" where
  "trace_lib = \<lparr>nd_rotate = (\<lambda>t angle axes. t @ [(angle, axes)]), nd_shape = (\<lambda>t. (0, 0, 0))\<rparr>"

text \<open>The object at the address \<^verbatim>\<open>psi_rot\<close> a reorienter returns, in the store it leaves.\<close>

definition returned_field ::
    "('a obj list \<times> nat \<times> nat \<times> nat \<times> nat \<times> nat \<times> nat \<times> nat) option \<Rightarrow> 'a obj option" where
  "returned_field res =
     (case res of
        None \<Rightarrow> None
      | Some (h, psi_rot, rest) \<Rightarrow> Some (h ! psi_rot))"

text \<open>
  Two family-1 segment records to run the reorienter on. The first is the (011) segment
  from \<open>(0, 0, 0)\<close> to \<open>(0, 1, 1)\<close> with one sample, as the builder returns it for
  \<open>dk_set = sqrt 2\<close> (lemma \<open>segment_011_built\<close>). The second is made by hand: its
  direction \<open>(0.6, 0.64, 0.48)\<close> has no vanishing component, which no segment of
  family 1 from the builder has (lemma \<open>family_1_zero_component\<close>).
\<close>

definition segment_011 :: k_segment where
  "segment_011 =
     \<lparr>dir = 1, scale = l_110, dir_k = (0, l_110, l_110), indices = (0, 1, 1),
      pos_k = (0, 0, 0), kappa_12 = (0, sqrt 2), r_par_sign = 1, dk = sqrt 2,
      rot_angle = (- (pi / 2), - (pi / 4)),
      k_perp_basis = ((0, l_110, l_110), (- 1, 0, 0), (0, - l_110, l_110)),
      N_bun = 1, origin_bun = [(0, 0, 0), (1 / 2, 1 / 2, 1 / 2)],
      kappa = [0], phi_folded = [0]\<rparr>"

definition segment_skew :: k_segment where
  "segment_skew =
     \<lparr>dir = 1, scale = l_110, dir_k = (3 / 5, 16 / 25, 12 / 25),
      indices = (5 / 4, 4 / 3, 1), pos_k = (0, 0, 0), kappa_12 = (0, 1), r_par_sign = 1,
      dk = 1, rot_angle = (0, 0),
      k_perp_basis = ((1, 0, 0), (0, 1, 0), (0, 0, 1)),
      N_bun = 1, origin_bun = [(0, 0, 0), (1 / 2, 1 / 2, 1 / 2)],
      kappa = [0], phi_folded = [0]\<rparr>"

section \<open>Bundle enumerators\<close>

text \<open>The dictionary returned by \<^verbatim>\<open>summary_k_path\<close>, and the one returned by \<^verbatim>\<open>set_bundle_*\<close>.\<close>

record k_structure =
  n_dir :: "int list"
  pos_dir :: "int list list"
  Nyquist :: int

text \<open>
  In a bundle, \<^verbatim>\<open>'kappa'\<close> is a matrix with one row per path sample and one column per
  zone; it is kept as the list of its rows. \<^verbatim>\<open>'psi_proj'\<close> is always the empty array.
\<close>

record k_bundle =
  dir_index :: vec3
  k_0_0 :: "real list"
  k_0_1 :: "real list"
  kappa_b :: "real list list"
  psi_proj :: "complex list"

definition get_masks :: "int \<Rightarrow> vec3 \<Rightarrow> vec3 \<times> vec3" where
  "get_masks direction idx =
     (case idx of (i0, i1, i2) \<Rightarrow>
        if direction = 0 then
          (if \<bar>i1\<bar> = 1 then ((1, 0, 0), (0, 0, 1))
           else if \<bar>i2\<bar> = 1 then ((0, 1, 0), (1, 0, 0))
           else ((0, 1, 0), (0, 0, 1)))
        else if direction = 1 then
          (if \<bar>i2\<bar> = 0 \<and> i0 + i1 = 0 then ((1 / sqrt 2, 1 / sqrt 2, 0), (0, 0, 1))
           else if \<bar>i1\<bar> = 0 then
             (if i0 + i2 = 0 then ((1 / sqrt 2, 0, 1 / sqrt 2), (0, 1, 0))
              else ((- 1 / sqrt 2, 0, 1 / sqrt 2), (0, 1, 0)))
           else if \<bar>i0\<bar> = 0 then
             (if i1 + i2 = 0 then ((0, 1 / sqrt 2, - 1 / sqrt 2), (1, 0, 0))
              else ((0, - 1 / sqrt 2, 1 / sqrt 2), (1, 0, 0)))
           else ((- 1 / sqrt 2, 1 / sqrt 2, 0), (0, 0, 1)))
        else if direction = 2 then
          ((- 1 / sqrt 2, 1 / sqrt 2, 0), (- 1 / sqrt 6, - 1 / sqrt 6, 2 / sqrt 6))
        else ((0, 1, 0), (0, 0, 1)))"

text \<open>
  The matrix whose column \<open>i\<close> is \<^verbatim>\<open>np.linspace(kappa_1, kappa_2 - dk, N_k)\<close> for the
  \<open>i\<close>-th zone shift: \<^verbatim>\<open>np.zeros((N_k, n))\<close> raises for a negative \<open>n\<close>, and the
  rows are read off the columns.
\<close>

definition kappa_matrix :: "k_segment \<Rightarrow> int \<Rightarrow> (int \<Rightarrow> real) \<Rightarrow> py_error + real list list" where
  "kappa_matrix k_segment n shift =
     (let N_k = length (kappa k_segment)
      in if n < 0 then Inl ValueError
         else Inr (map (\<lambda>s. map (\<lambda>i.
                let kappa_1 = fst (kappa_12 k_segment) + shift i;
                    kappa_2 = snd (kappa_12 k_segment) + shift i
                in linspace_points kappa_1 (kappa_2 - dk k_segment) N_k ! s) (py_range n)) [0..<N_k]))"

text \<open>\<^verbatim>\<open>set_bundle_100(b, k_segment, k_structure)\<close>.\<close>

definition set_bundle_100 :: "int \<Rightarrow> k_segment \<Rightarrow> k_structure \<Rightarrow> py_error + k_bundle" where
  "set_bundle_100 b k_segment k_struct =
     (let idx = indices k_segment;
          (mask_1, mask_2) = get_masks (dir k_segment) idx;
          N = Nyquist k_struct
      in case (if b = 0 then linspace (- real_of_int N) (real_of_int N) (2 * N + 1)
               else linspace (- real_of_int N) (real_of_int N - 1) (2 * N)) of
           Inl err \<Rightarrow> Inl err
         | Inr grid \<Rightarrow>
             let k_0 = pos_k k_segment;
                 k_0_perp = (dot mask_1 k_0, dot mask_2 k_0)
             in (case py_get (origin_bun k_segment) b of
                  Inl err \<Rightarrow> Inl err
                | Inr k0_origin \<Rightarrow>
                    let k0_origin_perp = (dot mask_1 k0_origin, dot mask_2 k0_origin);
                        k_0_0 = map (\<lambda>x. x + (fst k0_origin_perp + fst k_0_perp)) grid;
                        k_0_1 = map (\<lambda>x. x + (snd k0_origin_perp + snd k_0_perp)) grid
                    in (case (if b = 0
                             then kappa_matrix k_segment (2 * N + 1)
                                    (\<lambda>i. - real_of_int N + real_of_int i)
                             else kappa_matrix k_segment (2 * N)
                                    (\<lambda>i. - real_of_int N + 1 / 2 + real_of_int i)) of
                         Inl err \<Rightarrow> Inl err
                       | Inr kappa_m \<Rightarrow>
                           Inr \<lparr>dir_index = idx, k_0_0 = k_0_0, k_0_1 = k_0_1,
                                kappa_b = kappa_m, psi_proj = []\<rparr>)))"

text \<open>
  \<^verbatim>\<open>combinations_110_bis(k_segment, l, b, Nyq)\<close>: the rows of \<^verbatim>\<open>BZ\<close>. Row
  \<open>r * len(n_2) + t\<close> of the stacked array holds row \<open>r\<close> of \<^verbatim>\<open>BZ_2D\<close> with
  \<open>n_2[t]\<close> inserted as column \<open>pos_z\<close>; column \<open>pos_y\<close> is then scaled and the
  bundle origin added.
\<close>

definition combinations_110_bis :: "k_segment \<Rightarrow> int \<Rightarrow> int \<Rightarrow> int \<Rightarrow> py_error + vec3 list" where
  "combinations_110_bis k_segment l b Nyq =
     (let sign = r_par_sign k_segment;
          idx = vscale (real_of_int sign) (indices k_segment)
      in case linspace (- real_of_int Nyq) (real_of_int (Nyq - b)) (2 * Nyq + 1 - b) of
           Inl err \<Rightarrow> Inl err
         | Inr n_2 \<Rightarrow>
             let BZ_2D = (if l = 0 then [(0, 0)] else [(real_of_int l, 0), (0, real_of_int l)])
             in (case idx of (i0, i1, i2) \<Rightarrow>
                let (pos_y, pos_z) =
                      (if \<bar>i1\<bar> < 1 / 1000000 then (2 :: nat, 1 :: nat)
                       else if \<bar>i0\<bar> < 1 / 1000000 then (2, 0)
                       else (1, 2));
                    stacked = [(if pos_z = 2 then (r0, r1, n)
                                else if pos_z = 1 then (r0, n, r1)
                                else (n, r0, r1)). (r0, r1) \<leftarrow> BZ_2D, n \<leftarrow> n_2];
                    scaled = map (\<lambda>(x, y, z). if pos_y = 1 then (x, y * i1, z)
                                               else (x, y, z * i2)) stacked
                in (case py_get (origin_bun k_segment) b of
                     Inl err \<Rightarrow> Inl err
                   | Inr origin \<Rightarrow> Inr (map (\<lambda>row. vadd row origin) scaled))))"

text \<open>
  \<^verbatim>\<open>set_bundle_110(BZ, l, b, k_segment, k_structure)\<close>. The masks it computes are not
  used. A zone shift divides by the segment's scale; a zero scale gives a non-finite
  float, written as a failure.
\<close>

definition set_bundle_110 ::
    "vec3 list \<Rightarrow> int \<Rightarrow> int \<Rightarrow> k_segment \<Rightarrow> k_structure \<Rightarrow> py_error + k_bundle" where
  "set_bundle_110 BZ l b k_segment k_struct =
     (let idx = indices k_segment;
          N = Nyquist k_struct
      in case k_perp_basis k_segment of (e_par, e_perp_0, e_perp_1) \<Rightarrow>
         let k_0 = pos_k k_segment;
             k_perp_0 = map (\<lambda>row. dot row e_perp_0 + dot e_perp_0 k_0) BZ;
             k_perp_1 = map (\<lambda>row. dot row e_perp_1 + dot e_perp_1 k_0) BZ;
             n_min = l - 2 * N;
             n_max = 2 * (N - b) - l;
             n_kappa = py_round (real_of_int (n_max - n_min) / 2 + 1)
         in if n_kappa < 0 then Inl ValueError
            else (case py_get (origin_bun k_segment) b of
              Inl err \<Rightarrow> Inl err
            | Inr origin \<Rightarrow>
                let kappa_0 = dot e_par origin
                in if 0 < n_kappa \<and> scale k_segment = 0 then Inl ZeroDivisionError
                   else (case kappa_matrix k_segment n_kappa
                          (\<lambda>i. kappa_0 + (real_of_int n_min / 2 + real_of_int i) / scale k_segment) of
                     Inl err \<Rightarrow> Inl err
                   | Inr kappa_m \<Rightarrow>
                       Inr \<lparr>dir_index = idx, k_0_0 = k_perp_0, k_0_1 = k_perp_1,
                            kappa_b = kappa_m, psi_proj = []\<rparr>)))"

text \<open>
  \<^verbatim>\<open>combinations_111(width, length, bundle, k_segment)\<close>. The distinct permutations of
  \<^verbatim>\<open>[width, length, 0]\<close> come out of a Python set, whose order is not fixed; they are
  listed here in the order \<^verbatim>\<open>itertools.permutations\<close> yields them.
\<close>

definition combinations_111 :: "int \<Rightarrow> int \<Rightarrow> int \<Rightarrow> k_segment \<Rightarrow> py_error + vec3 list" where
  "combinations_111 width len b k_segment =
     (let sign = r_par_sign k_segment;
          idx = vscale (real_of_int sign) (indices k_segment);
          w = real_of_int width;
          l = real_of_int len;
          all_cells = remdups [(w, l, 0), (w, 0, l), (l, w, 0), (l, 0, w), (0, w, l), (0, l, w)]
      in case idx of (i0, i1, i2) \<Rightarrow>
         let total = i0 + i1 + i2;
             flipped =
               (if total < 100001 / 100000 then
                  (if 99999 / 100000 < i0 \<and> 99999 / 100000 < i1
                   then map (\<lambda>(x, y, z). (x, y, - z)) all_cells
                   else if 99999 / 100000 < i0 \<and> 99999 / 100000 < i2
                   then map (\<lambda>(x, y, z). (x, - y, z)) all_cells
                   else if total < - (99999 / 100000)
                   then map (\<lambda>(x, y, z). (x, - y, - z)) all_cells
                   else all_cells)
                else all_cells)
         in (case py_get (origin_bun k_segment) b of
              Inl err \<Rightarrow> Inl err
            | Inr origin \<Rightarrow> Inr (map (\<lambda>row. vadd row origin) flipped)))"

text \<open>\<^verbatim>\<open>set_bundle_111(BZ, w, l, b, k_segment, k_structure)\<close>.\<close>

definition set_bundle_111 ::
    "vec3 list \<Rightarrow> int \<Rightarrow> int \<Rightarrow> int \<Rightarrow> k_segment \<Rightarrow> k_structure \<Rightarrow> py_error + k_bundle" where
  "set_bundle_111 BZ w l b k_segment k_struct =
     (let idx = indices k_segment;
          N = Nyquist k_struct
      in case k_perp_basis k_segment of (e_par, e_perp_0, e_perp_1) \<Rightarrow>
         let k_0 = pos_k k_segment;
             k_perp_0 = map (\<lambda>row. dot row e_perp_0 + dot e_perp_0 k_0) BZ;
             k_perp_1 = map (\<lambda>row. dot row e_perp_1 + dot e_perp_1 k_0) BZ;
             n_min = w + l - 3 * N;
             n_max = 3 * (N - b) + l - 2 * w;
             n_kappa = py_round (real_of_int (n_max - n_min) / 3 + 1)
         in if n_kappa < 0 then Inl ValueError
            else (case py_get (origin_bun k_segment) b of
              Inl err \<Rightarrow> Inl err
            | Inr origin \<Rightarrow>
                let kappa_0 = dot e_par origin
                in (case kappa_matrix k_segment n_kappa
                          (\<lambda>i. kappa_0 + real_of_int (n_min + 3 * i) * scale k_segment) of
                     Inl err \<Rightarrow> Inl err
                   | Inr kappa_m \<Rightarrow>
                       Inr \<lparr>dir_index = idx, k_0_0 = k_perp_0, k_0_1 = k_perp_1,
                            kappa_b = kappa_m, psi_proj = []\<rparr>)))"

section \<open>Projection engine\<close>

text \<open>
  The reoriented field as the workers read it: its shape and its entries. The workers
  only read their arguments, so these are values.
\<close>

record arr3 =
  shape3 :: "nat \<times> nat \<times> nat"
  elems :: "nat \<Rightarrow> nat \<Rightarrow> nat \<Rightarrow> real"

definition axis_len :: "arr3 \<Rightarrow> nat \<Rightarrow> nat" where
  "axis_len psi ax =
     (case shape3 psi of (n0, n1, n2) \<Rightarrow> if ax = 0 then n0 else if ax = 1 then n1 else n2)"

text \<open>
  The entry of the field with index \<open>p\<close> on axis \<open>axis_id[0]\<close>, \<open>a\<close> on axis
  \<open>axis_id[1]\<close> and \<open>c\<close> on axis \<open>axis_id[2]\<close>.
\<close>

definition psi_at :: "arr3 \<Rightarrow> nat \<times> nat \<times> nat \<Rightarrow> nat \<Rightarrow> nat \<Rightarrow> nat \<Rightarrow> real" where
  "psi_at psi axis_id p a c =
     (case axis_id of (ax0, ax1, ax2) \<Rightarrow>
        let pos = (\<lambda>ax. if ax = ax0 then p else if ax = ax1 then a else c)
        in elems psi (pos 0) (pos 1) (pos 2))"

text \<open>
  \<^verbatim>\<open>np.tensordot\<close> raises when the contracted axes differ in length: the two
  perpendicular ramps are contracted with the axes \<open>axis_id[1]\<close> and \<open>axis_id[2]\<close> of
  the field, the parallel ramp with the axis that is left.
\<close>

definition shapes_match ::
    "arr3 \<Rightarrow> real list \<Rightarrow> real list \<Rightarrow> real list \<Rightarrow> nat \<times> nat \<times> nat \<Rightarrow> bool" where
  "shapes_match psi_rot r_par r_perp_0 r_perp_1 axis_id =
     (case axis_id of (ax0, ax1, ax2) \<Rightarrow>
        ax0 < 3 \<and> ax1 < 3 \<and> ax2 < 3 \<and> ax0 \<noteq> ax1 \<and> ax0 \<noteq> ax2 \<and> ax1 \<noteq> ax2 \<and>
        length r_perp_0 = axis_len psi_rot ax1 \<and>
        length r_perp_1 = axis_len psi_rot ax2 \<and>
        length r_par = axis_len psi_rot ax0)"

text \<open>
  The contribution of one (100) bundle to the folded weight, the right-hand side of
  \<^verbatim>\<open>phi_folded_chunk += np.sum(abs(phi_projection_unfolded) ** 2, axis=(1, 2, 3))\<close>
  in \<^verbatim>\<open>process_bundle_chunk_100\<close>: one entry per row of \<^verbatim>\<open>kappa\<close>.
\<close>

definition bundle_weight_100 ::
    "k_bundle \<Rightarrow> arr3 \<Rightarrow> real list \<Rightarrow> real list \<Rightarrow> real list \<Rightarrow> nat \<times> nat \<times> nat \<Rightarrow>
     real \<Rightarrow> real \<Rightarrow> real list option" where
  "bundle_weight_100 bun psi_rot r_par r_perp_0 r_perp_1 axis_id k_unit dx =
     (if \<not> shapes_match psi_rot r_par r_perp_0 r_perp_1 axis_id then None
      else
        let factor_perp = (\<lambda>k00 a k01 c.
              exp (- \<i> * complex_of_real
                    (k00 * (r_perp_0 ! a) * k_unit * dx + k01 * (r_perp_1 ! c) * k_unit * dx)));
            psi_projection_unfolded = (\<lambda>k00 k01 p.
              \<Sum>a\<leftarrow>[0..<length r_perp_0]. \<Sum>c\<leftarrow>[0..<length r_perp_1].
                factor_perp k00 a k01 c * complex_of_real (psi_at psi_rot axis_id p a c));
            factor_par = (\<lambda>kap p.
              exp (- \<i> * complex_of_real (k_unit * kap * (r_par ! p)) * complex_of_real dx));
            phi_projection_unfolded = (\<lambda>kap k00 k01.
              \<Sum>p\<leftarrow>[0..<length r_par]. factor_par kap p * psi_projection_unfolded k00 k01 p)
        in Some (map (\<lambda>row.
                   \<Sum>kap\<leftarrow>row. \<Sum>k00\<leftarrow>k_0_0 bun. \<Sum>k01\<leftarrow>k_0_1 bun.
                     (cmod (phi_projection_unfolded kap k00 k01))\<^sup>2) (kappa_b bun)))"

text \<open>
  The same for a (110) or (111) bundle, whose images pair the two perpendicular
  coordinates position by position; the sum runs over \<^verbatim>\<open>axis=(1, 2)\<close>.
\<close>

definition bundle_weight_11x ::
    "k_bundle \<Rightarrow> arr3 \<Rightarrow> real list \<Rightarrow> real list \<Rightarrow> real list \<Rightarrow> nat \<times> nat \<times> nat \<Rightarrow>
     real \<Rightarrow> real \<Rightarrow> real list option" where
  "bundle_weight_11x bun psi_rot r_par r_perp_0 r_perp_1 axis_id k_unit dx =
     (if \<not> shapes_match psi_rot r_par r_perp_0 r_perp_1 axis_id then None
      else
        let factor_perp = (\<lambda>(k0, k1) a c.
              exp (- \<i> * complex_of_real
                    ((k0 * (r_perp_0 ! a) + k1 * (r_perp_1 ! c)) * k_unit * dx)));
            psi_projection_unfolded = (\<lambda>k p.
              \<Sum>a\<leftarrow>[0..<length r_perp_0]. \<Sum>c\<leftarrow>[0..<length r_perp_1].
                factor_perp k a c * complex_of_real (psi_at psi_rot axis_id p a c));
            factor_par = (\<lambda>kap p.
              exp (- \<i> * complex_of_real (k_unit * kap * (r_par ! p)) * complex_of_real dx));
            phi_projection_unfolded = (\<lambda>kap k.
              \<Sum>p\<leftarrow>[0..<length r_par]. factor_par kap p * psi_projection_unfolded k p)
        in Some (map (\<lambda>row.
                   \<Sum>kap\<leftarrow>row. \<Sum>k\<leftarrow>zip (k_0_0 bun) (k_0_1 bun).
                     (cmod (phi_projection_unfolded kap k))\<^sup>2) (kappa_b bun)))"

text \<open>
  \<^verbatim>\<open>a += v\<close> on one-dimensional arrays: \<open>v\<close> must have the length of \<open>a\<close>, or
  length one, in which case it is broadcast; anything else raises.
\<close>

definition np_iadd :: "real list \<Rightarrow> real list \<Rightarrow> real list option" where
  "np_iadd a v =
     (if length v = length a then Some (map2 (+) a v)
      else if length v = 1 then Some (map (\<lambda>x. x + hd v) a)
      else None)"

text \<open>
  The loop shared by the three \<^verbatim>\<open>process_bundle_chunk_*\<close> functions: start from
  \<^verbatim>\<open>np.zeros(k_segment['phi_folded'].shape)\<close> and add the weight of every item of the
  chunk (\<^verbatim>\<open>phi_folded_chunk += ...\<close>). \<open>None\<close> stands for any exception raised on
  the way.
\<close>

definition add_item ::
    "('i \<Rightarrow> real list option) \<Rightarrow> real list option \<Rightarrow> 'i \<Rightarrow> real list option" where
  "add_item weight acc item =
     (case acc of
        None \<Rightarrow> None
      | Some phi_folded_chunk \<Rightarrow>
          (case weight item of
             None \<Rightarrow> None
           | Some w \<Rightarrow> np_iadd phi_folded_chunk w))"

definition accumulate_chunk :: "('i \<Rightarrow> real list option) \<Rightarrow> nat \<Rightarrow> 'i list \<Rightarrow> real list option" where
  "accumulate_chunk weight n chunk = foldl (add_item weight) (Some (replicate n 0)) chunk"

definition item_weight_100 ::
    "k_segment \<Rightarrow> k_structure \<Rightarrow> arr3 \<Rightarrow> real list \<Rightarrow> real list \<Rightarrow> real list \<Rightarrow>
     nat \<times> nat \<times> nat \<Rightarrow> real \<Rightarrow> real \<Rightarrow> int \<Rightarrow> real list option" where
  "item_weight_100 k_segment k_struct psi_rot r_par r_perp_0 r_perp_1 axis_id k_unit dx b =
     (case set_bundle_100 b k_segment k_struct of
        Inl err \<Rightarrow> None
      | Inr bun \<Rightarrow> bundle_weight_100 bun psi_rot r_par r_perp_0 r_perp_1 axis_id k_unit dx)"

definition item_weight_110 ::
    "k_segment \<Rightarrow> k_structure \<Rightarrow> arr3 \<Rightarrow> real list \<Rightarrow> real list \<Rightarrow> real list \<Rightarrow>
     nat \<times> nat \<times> nat \<Rightarrow> real \<Rightarrow> real \<Rightarrow> int \<Rightarrow> int \<times> int \<Rightarrow> real list option" where
  "item_weight_110 k_segment k_struct psi_rot r_par r_perp_0 r_perp_1 axis_id k_unit dx Nyq item =
     (case item of (b, l) \<Rightarrow>
        (case combinations_110_bis k_segment l b Nyq of
           Inl err \<Rightarrow> None
         | Inr BZ \<Rightarrow>
             (case set_bundle_110 BZ l b k_segment k_struct of
                Inl err \<Rightarrow> None
              | Inr bun \<Rightarrow>
                  bundle_weight_11x bun psi_rot r_par r_perp_0 r_perp_1 axis_id k_unit dx)))"

definition item_weight_111 ::
    "k_segment \<Rightarrow> k_structure \<Rightarrow> arr3 \<Rightarrow> real list \<Rightarrow> real list \<Rightarrow> real list \<Rightarrow>
     nat \<times> nat \<times> nat \<Rightarrow> real \<Rightarrow> real \<Rightarrow> int \<times> int \<times> int \<Rightarrow> real list option" where
  "item_weight_111 k_segment k_struct psi_rot r_par r_perp_0 r_perp_1 axis_id k_unit dx item =
     (case item of (b, w, l) \<Rightarrow>
        (case combinations_111 w l b k_segment of
           Inl err \<Rightarrow> None
         | Inr BZ \<Rightarrow>
             (case set_bundle_111 BZ w l b k_segment k_struct of
                Inl err \<Rightarrow> None
              | Inr bun \<Rightarrow>
                  bundle_weight_11x bun psi_rot r_par r_perp_0 r_perp_1 axis_id k_unit dx)))"

definition process_bundle_chunk_100 ::
    "int list \<Rightarrow> k_segment \<Rightarrow> k_structure \<Rightarrow> arr3 \<Rightarrow> real list \<Rightarrow> real list \<Rightarrow> real list \<Rightarrow>
     nat \<times> nat \<times> nat \<Rightarrow> real \<Rightarrow> real \<Rightarrow> real list option" where
  "process_bundle_chunk_100 chunk k_segment k_struct psi_rot r_par r_perp_0 r_perp_1 axis_id k_unit dx =
     accumulate_chunk
       (item_weight_100 k_segment k_struct psi_rot r_par r_perp_0 r_perp_1 axis_id k_unit dx)
       (length (phi_folded k_segment)) chunk"

definition process_bundle_chunk_110 ::
    "(int \<times> int) list \<Rightarrow> k_segment \<Rightarrow> k_structure \<Rightarrow> arr3 \<Rightarrow> real list \<Rightarrow> real list \<Rightarrow>
     real list \<Rightarrow> nat \<times> nat \<times> nat \<Rightarrow> real \<Rightarrow> real \<Rightarrow> int \<Rightarrow> real list option" where
  "process_bundle_chunk_110 chunk k_segment k_struct psi_rot r_par r_perp_0 r_perp_1 axis_id k_unit dx Nyq =
     accumulate_chunk
       (item_weight_110 k_segment k_struct psi_rot r_par r_perp_0 r_perp_1 axis_id k_unit dx Nyq)
       (length (phi_folded k_segment)) chunk"

definition process_bundle_chunk_111 ::
    "(int \<times> int \<times> int) list \<Rightarrow> k_segment \<Rightarrow> k_structure \<Rightarrow> arr3 \<Rightarrow> real list \<Rightarrow> real list \<Rightarrow>
     real list \<Rightarrow> nat \<times> nat \<times> nat \<Rightarrow> real \<Rightarrow> real \<Rightarrow> real list option" where
  "process_bundle_chunk_111 chunk k_segment k_struct psi_rot r_par r_perp_0 r_perp_1 axis_id k_unit dx =
     accumulate_chunk
       (item_weight_111 k_segment k_struct psi_rot r_par r_perp_0 r_perp_1 axis_id k_unit dx)
       (length (phi_folded k_segment)) chunk"

text \<open>
  The reduction in \<^verbatim>\<open>bse\<close>: \<^verbatim>\<open>k_segment['phi_folded'][:] = 0\<close>, then
  \<^verbatim>\<open>k_segment['phi_folded'] += phi_folded\<close> for the result of every chunk. An exception
  in any worker is raised in the driver.
\<close>

definition reduce_chunks :: "k_segment \<Rightarrow> real list option list \<Rightarrow> real list option" where
  "reduce_chunks k_segment results =
     (case those results of
        None \<Rightarrow> None
      | Some rs \<Rightarrow>
          foldl (\<lambda>acc phi. case acc of None \<Rightarrow> None | Some a \<Rightarrow> np_iadd a phi)
            (Some (replicate (length (phi_folded k_segment)) 0)) rs)"

text \<open>
  The body of the three segment loops of \<^verbatim>\<open>bse\<close>, from the reoriented field on: the
  work list is built from \<^verbatim>\<open>bundles = k_segment['N_bun']\<close> and the Nyquist limit, split
  into chunks, each chunk is processed, and the results are summed into
  \<^verbatim>\<open>k_segment['phi_folded']\<close>, which is the value returned here.
\<close>

definition bse_100 ::
    "int \<Rightarrow> k_segment \<Rightarrow> k_structure \<Rightarrow> arr3 \<Rightarrow> real list \<Rightarrow> real list \<Rightarrow> real list \<Rightarrow>
     nat \<times> nat \<times> nat \<Rightarrow> real \<Rightarrow> real \<Rightarrow> real list option" where
  "bse_100 n_cores k_segment k_struct psi_rot r_par r_perp_0 r_perp_1 axis_id k_unit dx =
     (let bundles = N_bun k_segment
      in case chunks_100_110 n_cores (py_range bundles) of
           Inl err \<Rightarrow> None
         | Inr chunked_bundles \<Rightarrow>
             reduce_chunks k_segment
               (map (\<lambda>chunk. process_bundle_chunk_100 chunk k_segment k_struct psi_rot
                       r_par r_perp_0 r_perp_1 axis_id k_unit dx) chunked_bundles))"

definition bse_110 ::
    "int \<Rightarrow> k_segment \<Rightarrow> k_structure \<Rightarrow> arr3 \<Rightarrow> real list \<Rightarrow> real list \<Rightarrow> real list \<Rightarrow>
     nat \<times> nat \<times> nat \<Rightarrow> real \<Rightarrow> real \<Rightarrow> real list option" where
  "bse_110 n_cores k_segment k_struct psi_rot r_par r_perp_0 r_perp_1 axis_id k_unit dx =
     (let Nyq = Nyquist k_struct;
          bundles = N_bun k_segment
      in case chunks_100_110 n_cores (tensordot_operations bundles Nyq) of
           Inl err \<Rightarrow> None
         | Inr chunked_operations \<Rightarrow>
             reduce_chunks k_segment
               (map (\<lambda>chunk. process_bundle_chunk_110 chunk k_segment k_struct psi_rot
                       r_par r_perp_0 r_perp_1 axis_id k_unit dx Nyq) chunked_operations))"

definition bse_111 ::
    "int \<Rightarrow> k_segment \<Rightarrow> k_structure \<Rightarrow> arr3 \<Rightarrow> real list \<Rightarrow> real list \<Rightarrow> real list \<Rightarrow>
     nat \<times> nat \<times> nat \<Rightarrow> real \<Rightarrow> real \<Rightarrow> real list option" where
  "bse_111 n_cores k_segment k_struct psi_rot r_par r_perp_0 r_perp_1 axis_id k_unit dx =
     (let Nyq = Nyquist k_struct;
          bundles = N_bun k_segment
      in case chunks_111 n_cores (bundle_width_layer_combinations bundles Nyq) of
           Inl err \<Rightarrow> None
         | Inr chunked_combinations \<Rightarrow>
             reduce_chunks k_segment
               (map (\<lambda>chunk. process_bundle_chunk_111 chunk k_segment k_struct psi_rot
                       r_par r_perp_0 r_perp_1 axis_id k_unit dx) chunked_combinations))"

section \<open>Path assembler\<close>

text \<open>
  The loop of \<^verbatim>\<open>organize_output_path\<close> over the segments it visits, on the state
  \<^verbatim>\<open>(kappa, ticks, kappa_end)\<close>, where \<open>ticks\<close> are the entries of
  \<^verbatim>\<open>kappa_ticks\<close> written so far. \<^verbatim>\<open>kappa_s[0]\<close> raises on a segment without samples.
\<close>

fun path_loop ::
    "k_segment list \<Rightarrow> real list \<times> real list \<times> real \<Rightarrow> py_error + (real list \<times> real list \<times> real)" where
  "path_loop [] st = Inr st"
| "path_loop (segment # rest) (kappa_acc, ticks, kappa_end) =
     (case kappa segment of
        [] \<Rightarrow> Inl IndexError
      | k0 # ks \<Rightarrow>
          let dkappa_s = dk segment;
              kappa_s = map (\<lambda>x. x - (k0 - kappa_end)) (kappa segment);
              kappa_end' = last kappa_s + dkappa_s
          in path_loop rest (kappa_acc @ kappa_s, ticks @ [kappa_end'], kappa_end'))"

text \<open>
  \<^verbatim>\<open>organize_output_path(k_path, k_path_points)\<close>. The loop runs over
  \<^verbatim>\<open>range(len(k_path_points) - 1)\<close> and reads \<^verbatim>\<open>k_path[s]\<close>, which raises once \<open>s\<close>
  is past the end of \<^verbatim>\<open>k_path\<close>. The result is \<^verbatim>\<open>(kappa, kappa_ticks)\<close>.
\<close>

definition organize_output_path ::
    "k_segment list \<Rightarrow> 'p list \<Rightarrow> py_error + (real list \<times> real list)" where
  "organize_output_path k_path k_path_points =
     (let N_segment = int (length k_path_points) - 1
      in case path_loop (take (nat N_segment) k_path) ([0], [], 0) of
           Inl err \<Rightarrow> Inl err
         | Inr (kappa_acc, ticks, kappa_end) \<Rightarrow>
             if int (length k_path) < N_segment then Inl IndexError
             else Inr (tl (kappa_acc @ [kappa_end]),
                       if N_segment + 1 \<le> 0 then [] else 0 # ticks))"

section \<open>Properties of the work lists\<close>

lemma set_py_range: "set (py_range n) = {i. 0 \<le> i \<and> i < n}"
  by (auto simp: py_range_def)

lemma distinct_py_range: "distinct (py_range n)"
  by (simp add: py_range_def)

lemma distinct_concat_map_inj:
  assumes "distinct xs"
    and "\<And>x. x \<in> set xs \<Longrightarrow> distinct (f x)"
    and "\<And>x y. x \<in> set xs \<Longrightarrow> y \<in> set xs \<Longrightarrow> x \<noteq> y \<Longrightarrow> set (f x) \<inter> set (f y) = {}"
  shows "distinct (concat (map f xs))"
  using assms
proof (induction xs)
  case Nil
  then show ?case by simp
next
  case (Cons a xs)
  have "set (f a) \<inter> set (f y) = {}" if "y \<in> set xs" for y
  proof -
    have "a \<noteq> y" using Cons.prems(1) that by auto
    then show ?thesis using Cons.prems(3) that by simp
  qed
  moreover have "distinct (concat (map f xs))"
    using Cons by simp
  ultimately show ?case using Cons.prems(2) by auto
qed

lemma set_tensordot_operations:
  "set (tensordot_operations bundles Nyq) =
     {(b, l). 0 \<le> b \<and> b < bundles \<and> 0 \<le> l \<and> l \<le> 2 * Nyq - b}"
  by (auto simp: tensordot_operations_def set_py_range)

lemma distinct_tensordot_operations: "distinct (tensordot_operations bundles Nyq)"
  unfolding tensordot_operations_def
  by (rule distinct_concat_map_inj)
     (auto simp: distinct_py_range distinct_map inj_on_def)

lemma set_bundle_width_layer_combinations:
  "set (bundle_width_layer_combinations bundles Nyq) =
     {(b, w, l). 0 \<le> b \<and> b < bundles \<and> 0 \<le> w \<and> w \<le> 2 * Nyq - b \<and> 0 \<le> l \<and> l \<le> w}"
  by (auto simp: bundle_width_layer_combinations_def set_py_range image_iff)

lemma distinct_bundle_width_layer_combinations:
  "distinct (bundle_width_layer_combinations bundles Nyq)"
  unfolding bundle_width_layer_combinations_def
proof (rule distinct_concat_map_inj)
  show "distinct (py_range bundles)" by (rule distinct_py_range)
next
  fix b
  show "distinct (concat (map (\<lambda>w. map (\<lambda>l. (b, w, l)) (py_range (w + 1)))
          (py_range (2 * Nyq + 1 - b))))"
    by (rule distinct_concat_map_inj)
       (auto simp: distinct_py_range distinct_map inj_on_def)
next
  fix b b' :: int
  assume "b \<noteq> b'"
  then show "set (concat (map (\<lambda>w. map (\<lambda>l. (b, w, l)) (py_range (w + 1)))
          (py_range (2 * Nyq + 1 - b)))) \<inter>
        set (concat (map (\<lambda>w. map (\<lambda>l. (b', w, l)) (py_range (w + 1)))
          (py_range (2 * Nyq + 1 - b')))) = {}"
    by auto
qed

lemma concat_chunk_slices:
  assumes "0 < cs"
  shows "concat (chunk_slices ops cs) = ops"
proof (induction "length ops" arbitrary: ops rule: less_induct)
  case less
  show ?case
  proof (cases "ops = []")
    case True
    then show ?thesis using assms by (simp add: chunk_slices_def)
  next
    case False
    let ?n = "(length ops + cs - 1) div cs"
    let ?r = "drop cs ops"
    have "0 < length ops" using False by simp
    then have "cs \<le> length ops + cs - 1" by arith
    then have n_pos: "0 < ?n"
      using assms by (simp add: div_greater_zero_iff)
    have cnt: "(length ?r + cs - 1) div cs = ?n - 1"
    proof (cases "cs \<le> length ops")
      case True
      then have "length ops + cs - 1 = (length ops - cs + cs - 1) + cs"
        using assms by simp
      then have "?n = (length ops - cs + cs - 1) div cs + 1"
        using assms by (metis div_add_self2 less_numeral_extra(3))
      then show ?thesis by simp
    next
      case False
      then have "length ops + cs - 1 < 2 * cs" by simp
      then have "?n < 2" using assms
        by (simp add: less_mult_imp_div_less mult.commute)
      with n_pos have "?n = 1" by simp
      moreover have "length ?r = 0" using False by simp
      ultimately show ?thesis using assms by simp
    qed
    have split: "[0..<?n] = 0 # map Suc [0..<?n - 1]"
      using n_pos by (metis Suc_diff_1 map_Suc_upt upt_conv_Cons)
    have "chunk_slices ops cs =
        take cs ops # map (\<lambda>j. take cs (drop (Suc j * cs) ops)) [0..<?n - 1]"
      unfolding chunk_slices_def by (subst split) (simp add: o_def)
    also have "map (\<lambda>j. take cs (drop (Suc j * cs) ops)) [0..<?n - 1] =
        map (\<lambda>j. take cs (drop (j * cs) ?r)) [0..<(length ?r + cs - 1) div cs]"
      unfolding cnt by (simp add: add.commute)
    finally have "chunk_slices ops cs = take cs ops # chunk_slices ?r cs"
      by (simp add: chunk_slices_def)
    moreover have "concat (chunk_slices ?r cs) = ?r"
      using less [of ?r] False assms by simp
    ultimately show ?thesis by simp
  qed
qed

lemma chunks_100_110_concat:
  "chunks_100_110 n_cores ops = Inr chunks \<Longrightarrow> concat chunks = ops"
  by (auto simp: chunks_100_110_def Let_def concat_chunk_slices o_def
      split: if_splits)

lemma chunks_111_concat:
  "chunks_111 n_cores ops = Inr chunks \<Longrightarrow> concat chunks = ops"
  by (auto simp: chunks_111_def Let_def concat_chunk_slices split: if_splits)

text \<open>
  Claim C1. The work list of a (110) segment holds exactly the pairs \<open>(b, l)\<close> with
  \<open>0 \<le> b < bundles\<close> and \<open>0 \<le> l \<le> 2 * Nyq - b\<close>, that of a (111) segment exactly the
  triples \<open>(b, w, l)\<close> with \<open>0 \<le> b < bundles\<close>, \<open>0 \<le> w \<le> 2 * Nyq - b\<close> and
  \<open>0 \<le> l \<le> w\<close>; each item occurs once, and whenever the driver gets as far as
  splitting the list, the chunks it hands out are the list again, in order.
\<close>

theorem work_items_exact:
  "set (tensordot_operations bundles Nyq) =
     {(b, l). 0 \<le> b \<and> b < bundles \<and> 0 \<le> l \<and> l \<le> 2 * Nyq - b} \<and>
   distinct (tensordot_operations bundles Nyq) \<and>
   set (bundle_width_layer_combinations bundles Nyq) =
     {(b, w, l). 0 \<le> b \<and> b < bundles \<and> 0 \<le> w \<and> w \<le> 2 * Nyq - b \<and> 0 \<le> l \<and> l \<le> w} \<and>
   distinct (bundle_width_layer_combinations bundles Nyq) \<and>
   (\<forall>n_cores chunks.
      chunks_100_110 n_cores (tensordot_operations bundles Nyq) = Inr chunks \<longrightarrow>
      concat chunks = tensordot_operations bundles Nyq) \<and>
   (\<forall>n_cores chunks.
      chunks_111 n_cores (bundle_width_layer_combinations bundles Nyq) = Inr chunks \<longrightarrow>
      concat chunks = bundle_width_layer_combinations bundles Nyq)"
proof (intro conjI allI impI)
  show "set (tensordot_operations bundles Nyq) =
      {(b, l). 0 \<le> b \<and> b < bundles \<and> 0 \<le> l \<and> l \<le> 2 * Nyq - b}"
    by (rule set_tensordot_operations)
  show "distinct (tensordot_operations bundles Nyq)"
    by (rule distinct_tensordot_operations)
  show "set (bundle_width_layer_combinations bundles Nyq) =
      {(b, w, l). 0 \<le> b \<and> b < bundles \<and> 0 \<le> w \<and> w \<le> 2 * Nyq - b \<and> 0 \<le> l \<and> l \<le> w}"
    by (rule set_bundle_width_layer_combinations)
  show "distinct (bundle_width_layer_combinations bundles Nyq)"
    by (rule distinct_bundle_width_layer_combinations)
next
  fix n_cores chunks
  assume "chunks_100_110 n_cores (tensordot_operations bundles Nyq) = Inr chunks"
  then show "concat chunks = tensordot_operations bundles Nyq"
    by (rule chunks_100_110_concat)
next
  fix n_cores chunks
  assume "chunks_111 n_cores (bundle_width_layer_combinations bundles Nyq) = Inr chunks"
  then show "concat chunks = bundle_width_layer_combinations bundles Nyq"
    by (rule chunks_111_concat)
qed

theorem work_items_exact_witness:
  "chunks_100_110 2 (tensordot_operations 1 1) = Inr [[(0, 0)], [(0, 1)], [(0, 2)]] \<and>
   chunks_111 2 (bundle_width_layer_combinations 1 1) = Inr [[(0, 0, 0), (0, 1, 0), (0, 1, 1)], [(0, 2, 0), (0, 2, 1), (0, 2, 2)]] \<and>
   concat [[(0, 0)], [(0, 1)], [(0, 2 :: int)]] = tensordot_operations 1 1 \<and>
   concat [[(0, 0, 0), (0, 1, 0), (0, 1, 1)], [(0, 2, 0), (0, 2, 1), (0, 2, 2 :: int)]] = bundle_width_layer_combinations 1 1 \<and>
   (0, 2) \<in> set (tensordot_operations 1 1) \<and> (0, 3) \<notin> set (tensordot_operations 1 1)"
proof -
  have ops: "tensordot_operations 1 1 = [(0, 0), (0, 1), (0, 2)]"
    by (simp add: tensordot_operations_def py_range_def upto.simps)
  have ops3: "bundle_width_layer_combinations 1 1 =
      [(0, 0, 0), (0, 1, 0), (0, 1, 1), (0, 2, 0), (0, 2, 1), (0, 2, 2)]"
    by (simp add: bundle_width_layer_combinations_def py_range_def upto.simps)
  have h1: "chunks_100_110 2 (tensordot_operations 1 1) = Inr [[(0, 0)], [(0, 1)], [(0, 2)]]"
    unfolding ops by (simp add: chunks_100_110_def chunk_slices_def Let_def upt_rec)
  have h2: "chunks_111 2 (bundle_width_layer_combinations 1 1) =
      Inr [[(0, 0, 0), (0, 1, 0), (0, 1, 1)], [(0, 2, 0), (0, 2, 1), (0, 2, 2)]]"
    unfolding ops3 by (simp add: chunks_111_def chunk_slices_def Let_def upt_rec)
  note inst = work_items_exact [of 1 1]
  from inst h1
  have c1: "concat [[(0, 0)], [(0, 1)], [(0, 2)]] = tensordot_operations 1 1"
    by (elim conjE allE [of _ 2] allE [of _ "[[(0, 0)], [(0, 1)], [(0, 2)]]"]) simp
  from inst h2
  have c2: "concat [[(0, 0, 0), (0, 1, 0), (0, 1, 1)], [(0, 2, 0), (0, 2, 1), (0, 2, 2)]] =
      bundle_width_layer_combinations 1 1"
    by (elim conjE allE [of _ 2]
        allE [of _ "[[(0, 0, 0), (0, 1, 0), (0, 1, 1)], [(0, 2, 0), (0, 2, 1), (0, 2, 2)]]"]) simp
  from inst
  have s: "set (tensordot_operations 1 1) =
      {(b, l). 0 \<le> b \<and> b < 1 \<and> 0 \<le> l \<and> l \<le> 2 * 1 - b}"
    by (elim conjE)
  have m: "(0, 2) \<in> set (tensordot_operations 1 1) \<and> (0, 3) \<notin> set (tensordot_operations 1 1)"
    unfolding s by simp
  show ?thesis using h1 h2 c1 c2 m by (intro conjI) (elim conjE, assumption)+
qed

section \<open>Chunked accumulation of the folded weight\<close>

lemma np_iadd_length: "np_iadd a v = Some r \<Longrightarrow> length r = length a"
  by (auto simp: np_iadd_def split: if_splits)

lemma map2_add_zeros: "length a = n \<Longrightarrow> map2 (+) a (replicate n (0::real)) = a"
  by (induction a arbitrary: n) auto

lemma map2_zeros_add: "length a = n \<Longrightarrow> map2 (+) (replicate n (0::real)) a = a"
  by (induction a arbitrary: n) auto

lemma map2_add_assoc:
  "length a = length r \<Longrightarrow> length r = length v \<Longrightarrow>
   map2 (+) (map2 (+) a r) v = map2 (+) a (map2 (+) r (v :: real list))"
proof (induction a arbitrary: r v)
  case Nil
  then show ?case by simp
next
  case (Cons x a)
  then obtain y r' z v' where "r = y # r'" "v = z # v'"
    by (metis length_Suc_conv)
  with Cons show ?case by simp
qed

lemma map2_add_shift:
  "length a = length r \<Longrightarrow>
   map (\<lambda>x. x + c) (map2 (+) a r) = map2 (+) a (map (\<lambda>x. x + (c :: real)) r)"
proof (induction a arbitrary: r)
  case Nil
  then show ?case by simp
next
  case (Cons x a)
  then obtain y r' where "r = y # r'"
    by (metis length_Suc_conv)
  with Cons show ?case by simp
qed

lemma np_iadd_shift:
  assumes "length a = length r"
  shows "np_iadd (map2 (+) a r) v =
     (case np_iadd r v of None \<Rightarrow> None | Some r' \<Rightarrow> Some (map2 (+) a r'))"
proof -
  have "map ((\<lambda>x. x + hd v) \<circ> (\<lambda>(x, y). x + y)) (zip a r) =
      map2 (+) a (map (\<lambda>x. x + hd v) r)"
    using map2_add_shift [OF assms, of "hd v"] by simp
  then show ?thesis
    using assms by (simp add: np_iadd_def map2_add_assoc)
qed

lemma add_item_shift:
  assumes "length a = length r"
  shows "add_item w (Some (map2 (+) a r)) x =
     (case add_item w (Some r) x of None \<Rightarrow> None | Some r' \<Rightarrow> Some (map2 (+) a r'))"
  by (simp add: add_item_def np_iadd_shift [OF assms] split: option.splits)

lemma foldl_add_item_None: "foldl (add_item w) None xs = None"
  by (induction xs) (simp_all add: add_item_def)

lemma accumulate_length:
  "accumulate_chunk w n xs = Some r \<Longrightarrow> length r = n"
proof (induction xs arbitrary: r rule: rev_induct)
  case Nil
  then show ?case by (auto simp: accumulate_chunk_def)
next
  case (snoc x xs)
  then show ?case
    by (auto simp: accumulate_chunk_def add_item_def dest: np_iadd_length
        split: option.splits)
qed

lemma foldl_add_item_shift:
  assumes "length a = n"
  shows "foldl (add_item w) (Some a) xs =
     (case accumulate_chunk w n xs of None \<Rightarrow> None | Some r \<Rightarrow> Some (map2 (+) a r))"
proof (induction xs rule: rev_induct)
  case Nil
  then show ?case using assms by (simp add: accumulate_chunk_def map2_add_zeros)
next
  case (snoc x xs)
  show ?case
  proof (cases "accumulate_chunk w n xs")
    case None
    with snoc show ?thesis
      by (simp add: accumulate_chunk_def add_item_def)
  next
    case (Some r)
    then have len: "length a = length r"
      using assms accumulate_length by fastforce
    from Some snoc have "foldl (add_item w) (Some a) xs = Some (map2 (+) a r)"
      by simp
    then have "foldl (add_item w) (Some a) (xs @ [x]) = add_item w (Some (map2 (+) a r)) x"
      by simp
    also have "\<dots> = (case add_item w (Some r) x of
        None \<Rightarrow> None | Some r' \<Rightarrow> Some (map2 (+) a r'))"
      by (rule add_item_shift [OF len])
    also have "add_item w (Some r) x = accumulate_chunk w n (xs @ [x])"
      using Some by (simp add: accumulate_chunk_def)
    finally show ?thesis .
  qed
qed

lemma accumulate_append:
  "accumulate_chunk w n (xs @ ys) =
     (case accumulate_chunk w n xs of
        None \<Rightarrow> None
      | Some a \<Rightarrow>
          (case accumulate_chunk w n ys of None \<Rightarrow> None | Some r \<Rightarrow> Some (map2 (+) a r)))"
proof (cases "accumulate_chunk w n xs")
  case None
  then show ?thesis
    by (simp add: accumulate_chunk_def foldl_add_item_None)
next
  case (Some a)
  then have "length a = n" by (rule accumulate_length)
  from foldl_add_item_shift [OF this, of w ys] Some show ?thesis
    by (simp add: accumulate_chunk_def)
qed

lemma reduce_from:
  assumes "length a = n"
  shows "(case those (map (accumulate_chunk w n) chunks) of
        None \<Rightarrow> None
      | Some rs \<Rightarrow> foldl (\<lambda>acc phi. case acc of None \<Rightarrow> None | Some a \<Rightarrow> np_iadd a phi) (Some a) rs) =
     (case accumulate_chunk w n (concat chunks) of
        None \<Rightarrow> None
      | Some r \<Rightarrow> Some (map2 (+) a r))"
  using assms
proof (induction chunks arbitrary: a)
  case Nil
  then show ?case by (simp add: accumulate_chunk_def map2_add_zeros)
next
  case (Cons c cs)
  show ?case
  proof (cases "accumulate_chunk w n c")
    case None
    then show ?thesis by (simp add: accumulate_append)
  next
    case (Some y)
    then have ly: "length y = n" by (rule accumulate_length)
    show ?thesis
    proof (cases "those (map (accumulate_chunk w n) cs)")
      case None
      with Cons.IH [OF Cons.prems] have "accumulate_chunk w n (concat cs) = None"
        by (simp split: option.splits)
      with None Some show ?thesis by (simp add: accumulate_append)
    next
      case (Some rs)
      have "length (map2 (+) a y) = n" using ly Cons.prems by simp
      from Cons.IH [OF this] Some
      have "foldl (\<lambda>acc phi. case acc of None \<Rightarrow> None | Some a \<Rightarrow> np_iadd a phi)
              (Some (map2 (+) a y)) rs =
            (case accumulate_chunk w n (concat cs) of
               None \<Rightarrow> None | Some r \<Rightarrow> Some (map2 (+) (map2 (+) a y) r))"
        by simp
      moreover have "np_iadd a y = Some (map2 (+) a y)"
        using ly Cons.prems by (simp add: np_iadd_def)
      ultimately show ?thesis
        using Some \<open>accumulate_chunk w n c = Some y\<close> ly Cons.prems
        by (auto simp: accumulate_append map2_add_assoc dest: accumulate_length
            split: option.splits)
    qed
  qed
qed

lemma reduce_accumulate:
  "reduce_chunks k_segment (map (accumulate_chunk w (length (phi_folded k_segment))) chunks) =
   accumulate_chunk w (length (phi_folded k_segment)) (concat chunks)"
proof -
  let ?n = "length (phi_folded k_segment)"
  have "length (replicate ?n (0::real)) = ?n" by simp
  from reduce_from [OF this, of w chunks]
  show ?thesis
    by (auto simp: reduce_chunks_def map2_zeros_add dest: accumulate_length
        split: option.splits)
qed

text \<open>
  Claim C3. For every segment, every split of a list of work items into chunks (given
  as the list of the chunks, whose concatenation is the work list) and every field: the
  sum over the chunks of the arrays \<^verbatim>\<open>process_bundle_chunk_100\<close>/\<open>110\<close>/\<open>111\<close> return,
  taken as \<^verbatim>\<open>bse\<close> takes it, is the array the same function returns for the whole
  list as one chunk; and one side raises exactly when the other does.
\<close>

theorem chunking_equivalence:
  "reduce_chunks k_segment
     (map (\<lambda>chunk. process_bundle_chunk_100 chunk k_segment k_struct psi_rot
             r_par r_perp_0 r_perp_1 axis_id k_unit dx) chunks_a) =
   process_bundle_chunk_100 (concat chunks_a) k_segment k_struct psi_rot
     r_par r_perp_0 r_perp_1 axis_id k_unit dx \<and>
   reduce_chunks k_segment
     (map (\<lambda>chunk. process_bundle_chunk_110 chunk k_segment k_struct psi_rot
             r_par r_perp_0 r_perp_1 axis_id k_unit dx Nyq) chunks_b) =
   process_bundle_chunk_110 (concat chunks_b) k_segment k_struct psi_rot
     r_par r_perp_0 r_perp_1 axis_id k_unit dx Nyq \<and>
   reduce_chunks k_segment
     (map (\<lambda>chunk. process_bundle_chunk_111 chunk k_segment k_struct psi_rot
             r_par r_perp_0 r_perp_1 axis_id k_unit dx) chunks_c) =
   process_bundle_chunk_111 (concat chunks_c) k_segment k_struct psi_rot
     r_par r_perp_0 r_perp_1 axis_id k_unit dx"
  unfolding process_bundle_chunk_100_def process_bundle_chunk_110_def
    process_bundle_chunk_111_def
  by (intro conjI) (rule reduce_accumulate)+

section \<open>Properties of the classifier and the segment builder\<close>

lemma py_int_of_int: "py_int (real_of_int n) = n"
  by (simp add: py_int_def)

lemma closest_py_round: "closest x = py_round x"
  by (simp add: closest_def py_int_of_int)

lemma py_round_ge_1: "1 \<le> py_round x \<longleftrightarrow> 1 / 2 < x"
proof -
  have fl: "real_of_int \<lfloor>x\<rfloor> \<le> x" "x < real_of_int \<lfloor>x\<rfloor> + 1"
    by linarith+
  show ?thesis
  proof (cases "1 \<le> \<lfloor>x\<rfloor>")
    case True
    then have "1 \<le> x" by linarith
    with True show ?thesis by (auto simp: py_round_def Let_def)
  next
    case False
    then have le0: "\<lfloor>x\<rfloor> \<le> 0" by linarith
    show ?thesis
    proof (cases "\<lfloor>x\<rfloor> = 0")
      case True
      then show ?thesis by (auto simp: py_round_def Let_def)
    next
      case False
      with le0 have "\<lfloor>x\<rfloor> \<le> - 1" by linarith
      then have "\<lfloor>x\<rfloor> + 1 \<le> 0" "x < 0" using fl by linarith+
      then show ?thesis by (auto simp: py_round_def Let_def)
    qed
  qed
qed

lemma linspace_points_length: "length (linspace_points a b n) = n"
  by (simp add: linspace_points_def)

lemma linspace_length: "linspace a b n = Inr xs \<Longrightarrow> int (length xs) = n"
  by (auto simp: linspace_def linspace_points_length split: if_splits)

lemma linspace_step:
  assumes "0 < n"
  shows "linspace a (b - (b - a) / real_of_int n) n =
     Inr (map (\<lambda>i. a + real i * ((b - a) / real_of_int n)) [0..<nat n])"
proof (cases "n = 1")
  case True
  then show ?thesis by (simp add: linspace_def linspace_points_def)
next
  case False
  with assms have n2: "1 < n" by simp
  then have "(b - (b - a) / real_of_int n - a) / (real_of_int n - 1) = (b - a) / real_of_int n"
    by (simp add: field_simps)
  moreover have "real (nat n) = real_of_int n" using n2 by simp
  ultimately show ?thesis using n2 by (simp add: linspace_def linspace_points_def)
qed

lemma dot_vsub: "dot k2 e - dot k1 e = dot (vsub k2 k1) e"
  by (cases k1, cases k2, cases e) (simp add: algebra_simps)

lemma dot_vdiv: "dot d (vdiv d c) = dot d d / c"
  by (cases d) (simp add: add_divide_distrib)

lemma dot_self_nonneg: "0 \<le> dot d d"
  by (cases d) simp

lemma dot_direction:
  assumes "norm3 d \<noteq> 0"
  shows "dot d (vdiv d (norm3 d)) = norm3 d"
proof -
  have "norm3 d * norm3 d = dot d d"
    by (simp add: norm3_def dot_self_nonneg)
  then show ?thesis using assms by (simp add: dot_vdiv field_simps)
qed

lemma norm3_nonneg: "0 \<le> norm3 d"
  by (simp add: norm3_def dot_self_nonneg)

lemma norm3_self_zero: "norm3 (vsub k k) = 0"
  by (cases k) (simp add: norm3_def)

text \<open>What a successful call of the segment builder has computed.\<close>

lemma k_path_segment_Inr:
  assumes "k_path_segment k1 k2 table dk_set = Inr seg"
  defines "e_k \<equiv> vdiv (vsub k2 k1) (norm3 (vsub k2 k1))"
  defines "N_k \<equiv> closest ((dot k2 e_k - dot k1 e_k) / dk_set)"
  shows "norm3 (vsub k2 k1) \<noteq> 0"
    and "dk_set \<noteq> 0"
    and "dir_k seg = e_k"
    and "kappa_12 seg = (dot k1 e_k, dot k2 e_k)"
    and "dk seg = (dot k2 e_k - dot k1 e_k) / real_of_int N_k"
    and "linspace (dot k1 e_k) (dot k2 e_k - dk seg) N_k = Inr (kappa seg)"
    and "phi_folded seg = replicate (nat N_k) 0"
    and "\<exists>index entry. set_index e_k = Inr (index, dir seg) \<and> indices seg = index \<and>
        py_get table (dir seg) = Inr entry \<and>
        N_bun seg = tbl_N_bun entry \<and> origin_bun seg = tbl_origin_bun entry \<and>
        scale seg = tbl_scale entry \<and>
        r_par_sign seg = direction_sign e_k (positive_dir entry)"
  using assms(1) unfolding e_k_def N_k_def k_path_segment_def Let_def
  by (auto split: if_splits sum.splits prod.splits)

lemma kappa_diff:
  assumes "k_path_segment k1 k2 table dk_set = Inr seg"
  shows "dot k2 (dir_k seg) - dot k1 (dir_k seg) = norm3 (vsub k2 k1)"
    and "0 < norm3 (vsub k2 k1)"
proof -
  note ne = k_path_segment_Inr(1) [OF assms]
  note d = k_path_segment_Inr(3) [OF assms]
  show "dot k2 (dir_k seg) - dot k1 (dir_k seg) = norm3 (vsub k2 k1)"
    unfolding d dot_vsub by (rule dot_direction [OF ne])
  show "0 < norm3 (vsub k2 k1)"
    using ne norm3_nonneg [of "vsub k2 k1"] by simp
qed

lemma sample_count:
  assumes "k_path_segment k1 k2 table dk_set = Inr seg"
  shows "int (length (kappa seg)) = closest (norm3 (vsub k2 k1) / dk_set)"
    and "length (phi_folded seg) = length (kappa seg)"
proof -
  let ?e = "vdiv (vsub k2 k1) (norm3 (vsub k2 k1))"
  let ?N = "closest ((dot k2 ?e - dot k1 ?e) / dk_set)"
  note d = k_path_segment_Inr(3) [OF assms]
  note lin = k_path_segment_Inr(6) [OF assms]
  note phi = k_path_segment_Inr(7) [OF assms]
  have "dot k2 ?e - dot k1 ?e = norm3 (vsub k2 k1)"
    using kappa_diff(1) [OF assms] d by simp
  with linspace_length [OF lin]
  show len: "int (length (kappa seg)) = closest (norm3 (vsub k2 k1) / dk_set)"
    by simp
  from linspace_length [OF lin] phi
  show "length (phi_folded seg) = length (kappa seg)"
    by simp
qed

text \<open>
  Claim C4. The segment built from \<open>(0, 0, 0)\<close> to \<open>(1, 0, 0)\<close> with
  \<open>dk_set = 0.1\<close> has 10 samples, spacing \<open>0.1\<close> and samples \<open>0.0, 0.1, \<dots>, 0.9\<close>.
  In general, a built segment with at least one sample has \<open>kappa_1 < kappa_2\<close>, the
  spacing \<open>(kappa_2 - kappa_1) / N_k\<close>, the samples \<open>kappa_1 + i * dk\<close> for
  \<open>i < N_k\<close>, starting at \<open>kappa_1 = dot(k1, direction)\<close>; the last sample plus the
  spacing is \<open>kappa_2 = dot(k2, direction)\<close>, and every sample lies below it.
\<close>

theorem k_path_segment_samples:
  "(\<exists>seg. k_path_segment (0, 0, 0) (1, 0, 0) e_k_dict (1 / 10) = Inr seg \<and>
      length (kappa seg) = 10 \<and> dk seg = 1 / 10 \<and>
      kappa seg = [0, 1 / 10, 1 / 5, 3 / 10, 2 / 5, 1 / 2, 3 / 5, 7 / 10, 4 / 5, 9 / 10]) \<and>
   (\<forall>k1 k2 table dk_set seg.
      k_path_segment k1 k2 table dk_set = Inr seg \<longrightarrow> kappa seg \<noteq> [] \<longrightarrow>
      (let N_k = length (kappa seg);
           kappa_1 = dot k1 (dir_k seg);
           kappa_2 = dot k2 (dir_k seg)
       in kappa_1 < kappa_2 \<and>
          dk seg = (kappa_2 - kappa_1) / real N_k \<and>
          kappa seg = map (\<lambda>i. kappa_1 + real i * dk seg) [0..<N_k] \<and>
          hd (kappa seg) = kappa_1 \<and>
          last (kappa seg) + dk seg = kappa_2 \<and>
          (\<forall>x \<in> set (kappa seg). x < kappa_2)))"
proof (intro conjI allI impI)
  have si: "set_index (1, 0, 0) = Inr ((1, 0, 0), 0)"
    by (simp add: set_index_def py_int_def)
  have pr: "py_round 10 = 10" "py_round 1 = 1"
    by (simp_all add: py_round_def)
  show "\<exists>seg. k_path_segment (0, 0, 0) (1, 0, 0) e_k_dict (1 / 10) = Inr seg \<and>
      length (kappa seg) = 10 \<and> dk seg = 1 / 10 \<and>
      kappa seg = [0, 1 / 10, 1 / 5, 3 / 10, 2 / 5, 1 / 2, 3 / 5, 7 / 10, 4 / 5, 9 / 10]"
    by (simp add: k_path_segment_def norm3_def si e_k_dict_def py_get_def direction_sign_def
        closest_def py_int_def pr linspace_def linspace_points_def Let_def upt_rec)
next
  fix k1 k2 table dk_set seg
  assume seg: "k_path_segment k1 k2 table dk_set = Inr seg" and ne: "kappa seg \<noteq> []"
  let ?e = "vdiv (vsub k2 k1) (norm3 (vsub k2 k1))"
  let ?N = "closest ((dot k2 ?e - dot k1 ?e) / dk_set)"
  let ?k1 = "dot k1 (dir_k seg)"
  let ?k2 = "dot k2 (dir_k seg)"
  note d = k_path_segment_Inr(3) [OF seg]
  note dk = k_path_segment_Inr(5) [OF seg]
  note lin = k_path_segment_Inr(6) [OF seg]
  have N: "?N = int (length (kappa seg))"
    using linspace_length [OF lin] by simp
  with ne have Npos: "0 < ?N" by simp
  have lt: "?k1 < ?k2"
    using kappa_diff [OF seg] by simp
  have dk': "dk seg = (?k2 - ?k1) / real (length (kappa seg))"
    using dk N d by simp
  have dkpos: "0 < dk seg"
    unfolding dk' using lt ne by simp
  have "linspace ?k1 (?k2 - (?k2 - ?k1) / real_of_int ?N) ?N =
      Inr (map (\<lambda>i. ?k1 + real i * ((?k2 - ?k1) / real_of_int ?N)) [0..<nat ?N])"
    by (rule linspace_step [OF Npos])
  with lin dk d N have samples: "kappa seg = map (\<lambda>i. ?k1 + real i * dk seg) [0..<length (kappa seg)]"
    by simp
  have len: "0 < length (kappa seg)" using ne by simp
  have hd: "hd (kappa seg) = ?k1"
    by (subst samples) (use len in \<open>simp add: hd_map upt_conv_Cons\<close>)
  have "last (kappa seg) = ?k1 + real (length (kappa seg) - 1) * dk seg"
    by (subst samples) (use len in \<open>simp add: last_map\<close>)
  also have "\<dots> + dk seg = ?k1 + real (length (kappa seg)) * dk seg"
  proof -
    from len obtain n where "length (kappa seg) = Suc n"
      by (cases "length (kappa seg)") auto
    then show ?thesis by (simp add: algebra_simps)
  qed
  also have "\<dots> = ?k2"
    unfolding dk' using len by simp
  finally have last: "last (kappa seg) + dk seg = ?k2" by simp
  have below: "x < ?k2" if "x \<in> set (kappa seg)" for x
  proof -
    from that have "x \<in> set (map (\<lambda>i. ?k1 + real i * dk seg) [0..<length (kappa seg)])"
      using samples by simp
    then obtain i where i: "i < length (kappa seg)" "x = ?k1 + real i * dk seg"
      by auto
    have "real i * dk seg < real (length (kappa seg)) * dk seg"
      using i(1) dkpos by simp
    also have "?k1 + real (length (kappa seg)) * dk seg = ?k2"
      unfolding dk' using len by simp
    finally show ?thesis using i(2) by linarith
  qed
  show "let N_k = length (kappa seg); kappa_1 = ?k1; kappa_2 = ?k2
       in kappa_1 < kappa_2 \<and>
          dk seg = (kappa_2 - kappa_1) / real N_k \<and>
          kappa seg = map (\<lambda>i. kappa_1 + real i * dk seg) [0..<N_k] \<and>
          hd (kappa seg) = kappa_1 \<and>
          last (kappa seg) + dk seg = kappa_2 \<and>
          (\<forall>x \<in> set (kappa seg). x < kappa_2)"
    unfolding Let_def
  proof (intro conjI ballI)
    show "?k1 < ?k2" by (rule lt)
    show "dk seg = (?k2 - ?k1) / real (length (kappa seg))" by (rule dk')
    show "kappa seg = map (\<lambda>i. ?k1 + real i * dk seg) [0..<length (kappa seg)]"
      by (rule samples)
    show "hd (kappa seg) = ?k1" by (rule hd)
    show "last (kappa seg) + dk seg = ?k2" by (rule last)
    show "x < ?k2" if "x \<in> set (kappa seg)" for x
      using that by (rule below)
  qed
qed


theorem k_path_segment_samples_witness:
  "\<exists>seg. k_path_segment (0, 0, 0) (1, 0, 0) e_k_dict (1 / 10) = Inr seg \<and>
     kappa seg \<noteq> [] \<and> dot (0, 0, 0) (dir_k seg) < dot (1, 0, 0) (dir_k seg) \<and>
     hd (kappa seg) = 0 \<and> last (kappa seg) + dk seg = 1"
proof -
  have si: "set_index (1, 0, 0) = Inr ((1, 0, 0), 0)"
    by (simp add: set_index_def py_int_def)
  have pr: "py_round 10 = 10" "py_round 1 = 1"
    by (simp_all add: py_round_def)
  obtain seg where seg: "k_path_segment (0, 0, 0) (1, 0, 0) e_k_dict (1 / 10) = Inr seg"
    and ne: "kappa seg \<noteq> []" and d: "dir_k seg = (1, 0, 0)"
    by (simp add: k_path_segment_def norm3_def si e_k_dict_def py_get_def direction_sign_def
        closest_def py_int_def pr linspace_def linspace_points_def Let_def upt_rec)
  from k_path_segment_samples seg ne
  have "let N_k = length (kappa seg);
            kappa_1 = dot (0, 0, 0) (dir_k seg);
            kappa_2 = dot (1, 0, 0) (dir_k seg)
        in kappa_1 < kappa_2 \<and>
           dk seg = (kappa_2 - kappa_1) / real N_k \<and>
           kappa seg = map (\<lambda>i. kappa_1 + real i * dk seg) [0..<N_k] \<and>
           hd (kappa seg) = kappa_1 \<and>
           last (kappa seg) + dk seg = kappa_2 \<and>
           (\<forall>x \<in> set (kappa seg). x < kappa_2)"
    by blast
  then have "dot (0, 0, 0) (dir_k seg) < dot (1, 0, 0) (dir_k seg) \<and>
      hd (kappa seg) = 0 \<and> last (kappa seg) + dk seg = 1"
    unfolding Let_def d by simp
  with seg ne show ?thesis by blast
qed

text \<open>
  Claim C8, as amended. For \<open>dk_set > 0\<close>: coincident endpoints make the builder
  raise \<^verbatim>\<open>ValueError\<close> (in the classifier, on the NaN direction); otherwise, when a
  segment is returned, its sample count is the integer closest to
  \<open>|k2 - k1| / dk_set\<close> (ties to even), the accumulator has as many entries, and the
  count is at least 1 exactly when \<open>|k2 - k1| / dk_set > 1/2\<close>. There is no lower
  bound of 1: for a shorter segment the builder returns a segment without samples.
\<close>

theorem sample_count_closest:
  assumes "0 < dk_set"
  shows "(k1 = k2 \<longrightarrow> k_path_segment k1 k2 table dk_set = Inl ValueError) \<and>
     (\<forall>seg. k_path_segment k1 k2 table dk_set = Inr seg \<longrightarrow>
        int (length (kappa seg)) = closest (norm3 (vsub k2 k1) / dk_set) \<and>
        length (phi_folded seg) = length (kappa seg) \<and>
        (1 \<le> length (kappa seg) \<longleftrightarrow> 1 / 2 < norm3 (vsub k2 k1) / dk_set))"
proof (intro conjI allI impI)
  assume "k1 = k2"
  then show "k_path_segment k1 k2 table dk_set = Inl ValueError"
    by (simp add: k_path_segment_def norm3_self_zero)
next
  fix seg
  assume seg: "k_path_segment k1 k2 table dk_set = Inr seg"
  show n: "int (length (kappa seg)) = closest (norm3 (vsub k2 k1) / dk_set)"
    by (rule sample_count(1) [OF seg])
  show "length (phi_folded seg) = length (kappa seg)"
    by (rule sample_count(2) [OF seg])
  have "1 \<le> length (kappa seg) \<longleftrightarrow> 1 \<le> int (length (kappa seg))"
    by simp
  also have "\<dots> \<longleftrightarrow> 1 / 2 < norm3 (vsub k2 k1) / dk_set"
    unfolding n closest_py_round by (rule py_round_ge_1)
  finally show "1 \<le> length (kappa seg) \<longleftrightarrow> 1 / 2 < norm3 (vsub k2 k1) / dk_set" .
qed

theorem sample_count_closest_witness:
  "(0 :: real) < 1 / 10 \<and>
   k_path_segment (0, 0, 0) (0, 0, 0) e_k_dict (1 / 10) = Inl ValueError \<and>
   (\<exists>seg. k_path_segment (0, 0, 0) (1, 0, 0) e_k_dict (1 / 10) = Inr seg \<and>
      1 \<le> length (kappa seg) \<and> length (phi_folded seg) = length (kappa seg))"
proof -
  have pos: "(0 :: real) < 1 / 10" by simp
  have a: "k_path_segment (0, 0, 0) (0, 0, 0) e_k_dict (1 / 10) = Inl ValueError"
    using sample_count_closest [OF pos, of "(0, 0, 0)" "(0, 0, 0)" e_k_dict] by simp
  have si: "set_index (1, 0, 0) = Inr ((1, 0, 0), 0)"
    by (simp add: set_index_def py_int_def)
  have pr: "py_round 10 = 10" "py_round 1 = 1"
    by (simp_all add: py_round_def)
  obtain seg where seg: "k_path_segment (0, 0, 0) (1, 0, 0) e_k_dict (1 / 10) = Inr seg"
    by (simp add: k_path_segment_def norm3_def si e_k_dict_def py_get_def direction_sign_def
        closest_def py_int_def pr linspace_def linspace_points_def Let_def upt_rec)
  have nrm: "norm3 (vsub (1, 0, 0) (0, 0, 0)) = 1"
    by (simp add: norm3_def)
  from sample_count_closest [OF pos, of "(0, 0, 0)" "(1, 0, 0)" e_k_dict] seg
  have "length (phi_folded seg) = length (kappa seg) \<and>
      (1 \<le> length (kappa seg) \<longleftrightarrow> 1 / 2 < norm3 (vsub (1, 0, 0) (0, 0, 0)) / (1 / 10))"
    by blast
  then have "1 \<le> length (kappa seg) \<and> length (phi_folded seg) = length (kappa seg)"
    unfolding nrm by simp
  with pos a seg show ?thesis by blast
qed

text \<open>
  The claim as stated fails from \<open>(0, 0, 0)\<close> to \<open>(1, 0, 0)\<close> with \<open>dk_set = 4\<close>:
  \<^verbatim>\<open>closest(0.25)\<close> is 0, and the builder returns a segment whose sample grid and
  accumulator are empty.
\<close>

theorem sample_count_counterexample:
  "map_sum id kappa (k_path_segment (0, 0, 0) (1, 0, 0) e_k_dict 4) = Inr [] \<and>
   map_sum id phi_folded (k_path_segment (0, 0, 0) (1, 0, 0) e_k_dict 4) = Inr []"
proof -
  have si: "set_index (1, 0, 0) = Inr ((1, 0, 0), 0)"
    by (simp add: set_index_def py_int_def)
  have pr: "py_round (1 / 4) = 0"
    by (simp add: py_round_def)
  show ?thesis
    by (simp add: k_path_segment_def norm3_def si e_k_dict_def py_get_def direction_sign_def
        closest_def py_int_def pr linspace_def linspace_points_def Let_def)
qed


lemma py_int_shift: "1 \<le> x \<Longrightarrow> py_int (x - 1) = \<lfloor>x\<rfloor> - 1"
  by (simp add: py_int_def)

lemma l_110_bounds: "1 / 2 < l_110" "l_110 < 1"
proof -
  have "sqrt 2 < 2" using real_less_lsqrt [of 2 2] by simp
  moreover have "1 < sqrt 2" by simp
  ultimately show "1 / 2 < l_110" "l_110 < 1"
    by (simp_all add: l_110_def field_simps)
qed

text \<open>The classifier on a non-zero vector.\<close>

lemma set_index_nonzero:
  assumes "e \<noteq> (0, 0, 0)"
  shows "\<exists>index label. set_index e = Inr (index, label) \<and>
     index = vdiv e (Min (set (filter (\<lambda>x. x \<noteq> 0) (map abs (components e))))) \<and>
     label = \<lfloor>sum_list (map abs (components index))\<rfloor> - 1 \<and>
     (let n = length (filter (\<lambda>x. x \<noteq> 0) (components e));
          total = sum_list (map abs (components index))
      in real n \<le> total \<and> (total < real n + 1 \<longrightarrow> label = int n - 1))"
proof -
  obtain x y z where e: "e = (x, y, z)" by (cases e)
  let ?nz = "filter (\<lambda>x. x \<noteq> 0) (map abs (components e))"
  let ?m = "Min (set ?nz)"
  let ?index = "vdiv e ?m"
  let ?total = "sum_list (map abs (components ?index))"
  let ?n = "length (filter (\<lambda>x. x \<noteq> 0) (components e))"
  have nz: "?nz \<noteq> []" using assms e by auto
  have ne_set: "set ?nz \<noteq> {}" unfolding set_empty by (rule nz)
  have "?m \<in> set ?nz" by (rule Min_in [OF _ ne_set]) simp
  then have m_pos: "0 < ?m" by auto
  have m_le: "?m \<le> \<bar>c\<bar>" if "c \<in> {x, y, z}" "c \<noteq> 0" for c
  proof -
    have "\<bar>c\<bar> \<in> set ?nz" using that e by auto
    then show ?thesis by (intro Min_le) auto
  qed
  have each: "(if c \<noteq> 0 then 1 else 0) \<le> \<bar>c\<bar> / ?m" if "c \<in> {x, y, z}" for c
    using m_le [OF that] m_pos by (simp add: field_simps)
  have total: "?total = \<bar>x\<bar> / ?m + \<bar>y\<bar> / ?m + \<bar>z\<bar> / ?m"
    using m_pos by (simp add: e)
  have n: "real ?n = (if x \<noteq> 0 then 1 else 0) + (if y \<noteq> 0 then 1 else 0) + (if z \<noteq> 0 then 1 else 0)"
    by (simp add: e)
  have n_le: "real ?n \<le> ?total"
    unfolding total n using each [of x] each [of y] each [of z] by simp
  have "1 \<le> ?n" using assms e by auto
  then have "1 \<le> real ?n" by simp
  with n_le have one_le: "1 \<le> ?total" by linarith
  have call: "set_index e = Inr (?index, py_int (?total - 1))"
    using nz by (simp add: set_index_def Let_def)
  have label: "py_int (?total - 1) = \<lfloor>?total\<rfloor> - 1"
    by (rule py_int_shift [OF one_le])
  have exact: "\<lfloor>?total\<rfloor> - 1 = int ?n - 1" if "?total < real ?n + 1"
  proof -
    have "\<lfloor>?total\<rfloor> = int ?n"
      using n_le that by (intro floor_unique) simp_all
    then show ?thesis by simp
  qed
  show ?thesis
    unfolding Let_def using call label n_le exact by auto
qed

text \<open>
  Claim C5, as amended. For a non-zero vector \<open>e\<close>, \<^verbatim>\<open>set_index\<close> returns the index
  \<open>e / m\<close>, with \<open>m\<close> the least non-zero absolute component, and the label
  \<open>\<lfloor>sum |index|\<rfloor> - 1\<close> (the sum minus one, truncated). The sum is at least the number
  \<open>n\<close> of non-zero components, and the label is \<open>n - 1\<close> whenever the sum stays below
  \<open>n + 1\<close>: 0, 1 and 2 for (100)-, (110)- and (111)-type directions, also with an error
  of less than 1 in the sum.
\<close>

theorem set_index_label:
  assumes "e \<noteq> (0, 0, 0)"
  shows "\<exists>index label. set_index e = Inr (index, label) \<and>
     index = vdiv e (Min (set (filter (\<lambda>x. x \<noteq> 0) (map abs (components e))))) \<and>
     label = \<lfloor>sum_list (map abs (components index))\<rfloor> - 1 \<and>
     (let n = length (filter (\<lambda>x. x \<noteq> 0) (components e));
          total = sum_list (map abs (components index))
      in real n \<le> total \<and> (total < real n + 1 \<longrightarrow> label = int n - 1))"
  using assms by (rule set_index_nonzero)

theorem set_index_label_witness:
  "(l_110, l_110, 0) \<noteq> (0, 0, 0) \<and> set_index (l_110, l_110, 0) = Inr ((1, 1, 0), 1)"
proof -
  have pos: "0 < l_110" using l_110_bounds(1) by simp
  then have ne: "(l_110, l_110, 0) \<noteq> (0 :: real, 0 :: real, 0 :: real)" by simp
  have m: "Min (set (filter (\<lambda>x. x \<noteq> 0) (map abs (components (l_110, l_110, 0))))) = l_110"
    using pos by simp
  from set_index_label [OF ne] obtain index label
    where call: "set_index (l_110, l_110, 0) = Inr (index, label)"
      and index: "index = vdiv (l_110, l_110, 0)
          (Min (set (filter (\<lambda>x. x \<noteq> 0) (map abs (components (l_110, l_110, 0))))))"
      and label: "label = \<lfloor>sum_list (map abs (components index))\<rfloor> - 1"
    by blast
  have "index = (1, 1, 0)"
    unfolding index m using pos by simp
  moreover from this label have "label = 1" by simp
  ultimately show ?thesis using ne call by simp
qed

text \<open>
  The label is not \<open>round(sum |index|) - 1\<close>: for \<open>e = (1, 1.6, 0)\<close> the sum is
  \<open>2.6\<close>, the code returns \<^verbatim>\<open>int(1.6) = 1\<close>, and rounding would give 2.
\<close>

theorem set_index_label_counterexample:
  "set_index (1, 8 / 5, 0) = Inr ((1, 8 / 5, 0), 1) \<and>
   py_round (sum_list (map abs (components (1, 8 / 5, 0)))) - 1 = 2"
proof -
  have "\<lfloor>13 / 5 :: real\<rfloor> = 2" by linarith
  then have "py_round (13 / 5) = 3"
    by (simp add: py_round_def Let_def)
  moreover have "\<lfloor>3 / 5 :: real\<rfloor> = 0" by linarith
  then have "set_index (1, 8 / 5, 0) = Inr ((1, 8 / 5, 0), 1)"
    by (simp add: set_index_def py_int_def)
  ultimately show ?thesis by simp
qed

subsection \<open>The (011) segment\<close>

text \<open>
  A family-1 segment that the builder returns has a direction with a vanishing
  component: three non-zero index components would sum to at least 3.
\<close>

lemma family_1_zero_component:
  assumes "k_path_segment k1 k2 table dk_set = Inr seg" and "dir seg = 1"
  shows "\<exists>d0 d1 d2. dir_k seg = (d0, d1, d2) \<and> (d0 = 0 \<or> d1 = 0 \<or> d2 = 0)"
proof -
  obtain d0 d1 d2 where d: "dir_k seg = (d0, d1, d2)" by (cases "dir_k seg")
  let ?e = "vdiv (vsub k2 k1) (norm3 (vsub k2 k1))"
  from k_path_segment_Inr(8) [OF assms(1)] assms(2)
  obtain index where si: "set_index ?e = Inr (index, 1)"
    by auto
  have e: "?e = (d0, d1, d2)"
    using k_path_segment_Inr(3) [OF assms(1)] d by simp
  show ?thesis
  proof (rule ccontr)
    assume "\<not> ?thesis"
    with d have nz: "d0 \<noteq> 0" "d1 \<noteq> 0" "d2 \<noteq> 0" by auto
    then have ne: "(d0, d1, d2) \<noteq> (0, 0, 0)" by simp
    from set_index_nonzero [OF ne] obtain idx label
      where call: "set_index (d0, d1, d2) = Inr (idx, label)"
        and lab: "label = \<lfloor>sum_list (map abs (components idx))\<rfloor> - 1"
        and cnt: "real (length (filter (\<lambda>x. x \<noteq> 0) (components (d0, d1, d2)))) \<le>
            sum_list (map abs (components idx))"
      unfolding Let_def by blast
    from call si e have "label = 1" by simp
    moreover have "length (filter (\<lambda>x. x \<noteq> 0) (components (d0, d1, d2))) = 3"
      using nz by simp
    ultimately have "1 = \<lfloor>sum_list (map abs (components idx))\<rfloor> - 1"
      and "3 \<le> sum_list (map abs (components idx))"
      using lab cnt by simp_all
    then show False by linarith
  qed
qed

lemma arcsin_l_110: "arcsin l_110 = pi / 4"
proof -
  have "sin (pi / 4) = l_110"
    by (simp add: sin_45 l_110_def real_div_sqrt)
  moreover have "- (pi / 2) \<le> pi / 4" "pi / 4 \<le> pi / 2"
    by simp_all
  ultimately show ?thesis
    by (metis arcsin_sin)
qed

lemma l_110_sq: "l_110 * l_110 = 1 / 2"
  by (simp add: l_110_def)

lemma sqrt2_l_110: "2 * l_110 = sqrt 2"
  by (simp add: l_110_def real_div_sqrt)

lemma cos_sin_45: "cos (pi / 4) = l_110" "sin (pi / 4) = l_110"
  by (simp_all add: cos_45 sin_45 l_110_def real_div_sqrt)


lemma l_110_pos: "0 < l_110"
  by (simp add: l_110_def)

lemma set_index_011: "set_index (0, l_110, l_110) = Inr ((0, 1, 1), 1)"
  using l_110_pos by (simp add: set_index_def py_int_def)

lemma direction_sign_011:
  "direction_sign (0, l_110, l_110) (positive_dir (e_k_dict ! 1)) = 1"
proof -
  have r: "py_round 1 = 1" by (simp add: py_round_def)
  show ?thesis
    by (simp add: direction_sign_def e_k_dict_def l_110_sq r)
qed

text \<open>The (011) segment record is what the builder returns.\<close>

lemma segment_011_built:
  "k_path_segment (0, 0, 0) (0, 1, 1) e_k_dict (sqrt 2) = Inr segment_011"
proof -
  have n: "norm3 (vsub (0, 1, 1) (0, 0, 0)) = sqrt 2"
    by (simp add: norm3_def)
  have e: "vdiv (vsub (0, 1, 1) (0, 0, 0)) (sqrt 2) = (0, l_110, l_110)"
    by (simp add: l_110_def)
  define entry where "entry = e_k_dict ! 1"
  have g: "py_get e_k_dict 1 = Inr entry"
    by (simp add: py_get_def e_k_dict_def entry_def)
  have t: "tbl_scale entry = l_110" "tbl_N_bun entry = 1"
    "tbl_origin_bun entry = [(0, 0, 0), (1 / 2, 1 / 2, 1 / 2)]"
    by (simp_all add: e_k_dict_def entry_def)
  have ds: "direction_sign (0, l_110, l_110) (positive_dir entry) = 1"
    unfolding entry_def by (rule direction_sign_011)
  have c: "closest 1 = 1"
    by (simp add: closest_def py_round_def py_int_def)
  have k2: "l_110 + l_110 = sqrt 2"
    using sqrt2_l_110 by simp
  have sq: "\<bar>l_110\<bar> = l_110" "l_110 / l_110 = 1" "l_110 \<noteq> 0"
    using l_110_pos by simp_all
  have trig: "cos (pi / 4) = l_110" "sin (pi / 4) = l_110"
    by (rule cos_sin_45)+
  show ?thesis
    unfolding k_path_segment_def n e Let_def
    by (simp add: set_index_011 g t ds c k2 sq l_110_pos arcsin_l_110 trig
        linspace_def linspace_points_def segment_011_def)
qed


section \<open>Properties of the reorienter\<close>

lemma scale_in_place_length: "length (scale_in_place h a sign) = length h"
  by (simp add: scale_in_place_def split: obj.splits)

lemma scale_in_place_other: "b \<noteq> a \<Longrightarrow> scale_in_place h a sign ! b = h ! b"
  by (simp add: scale_in_place_def split: obj.splits)

lemma scale_in_place_field: "h ! b = Field v \<Longrightarrow> scale_in_place h a sign ! b = Field v"
  by (cases "a = b") (auto simp: scale_in_place_def split: obj.splits)

lemma shape_ramps_store:
  assumes "shape_ramps h shp = (h', r_par, r_perp_0, r_perp_1)"
  shows "\<exists>x y z. h' = h @ [Ramp x, Ramp y, Ramp z]"
    and "r_par = length h"
  using assms by (auto simp: shape_ramps_def alloc_def Let_def split: prod.splits)

text \<open>The field a (110) call returns, by the branch taken.\<close>

lemma rotate_psi_110_field:
  assumes "dir seg = 1" and "dir_k seg = (d0, d1, d2)"
    and "psi < length h" and "h ! psi = Field v"
  shows "returned_field (rotate_psi lib h psi seg) =
     Some (Field
       (if \<bar>d2\<bar> < 1 / 1000000 then nd_rotate lib v (degrees (fst (rot_angle seg))) (0, 1)
        else if \<bar>d1\<bar> < 1 / 1000000 then nd_rotate lib v (degrees (snd (rot_angle seg))) (0, 2)
        else if \<bar>d0\<bar> < 1 / 1000000 then
          nd_rotate lib (nd_rotate lib v (degrees (fst (rot_angle seg))) (0, 1))
            (degrees (snd (rot_angle seg))) (0, 2)
        else v))"
  using assms
  by (auto simp: rotate_psi_def returned_field_def alloc_def shape_ramps_def Let_def
      nth_append intro!: scale_in_place_field split: prod.splits)

text \<open>The store a reorienter leaves extends the one it was given.\<close>

lemma rotate_psi_store:
  assumes "rotate_psi lib h psi seg = Some (h', psi_rot, r_par, r_perp_0, r_perp_1, axis_id)"
  shows "length h \<le> length h'" and "\<forall>a < length h. h' ! a = h ! a"
    and "length h \<le> psi_rot" and "psi_rot < length h'"
  using assms
  by (auto simp: rotate_psi_def alloc_def shape_ramps_def Let_def scale_in_place_length
      scale_in_place_other nth_append split: if_splits obj.splits prod.splits)

lemma rotate_psi_111_store:
  assumes "rotate_psi_111 lib h psi seg = Some (h', psi_rot, r_par, r_perp_0, r_perp_1, axis_id)"
  shows "length h \<le> length h'" and "\<forall>a < length h. h' ! a = h ! a"
    and "length h \<le> psi_rot" and "psi_rot < length h'"
  using assms
  by (auto simp: rotate_psi_111_def alloc_def shape_ramps_def Let_def scale_in_place_length
      scale_in_place_other nth_append split: if_splits obj.splits prod.splits)

lemma rotate_psi_returns:
  assumes "psi < length h" and "h ! psi = Field v"
  shows "\<exists>res. rotate_psi lib h psi seg = Some res"
    and "\<exists>res. rotate_psi_111 lib h psi seg = Some res"
  using assms
  by (auto simp: rotate_psi_def rotate_psi_111_def Let_def split: prod.splits)


lemma degrees_angles: "degrees (- (pi / 2)) = - 90" "degrees (- (pi / 4)) = - 45" "degrees 0 = 0"
  by (simp_all add: degrees_def)

text \<open>
  Claim C6. For a family-1 segment whose direction has all three components of absolute
  value at least \<open>10\<^sup>-\<^sup>6\<close>, \<^verbatim>\<open>rotate_psi\<close> returns normally, and the field it returns
  equals the input field: none of the three rotation branches is taken.
\<close>

theorem rotate_psi_110_unrotated:
  assumes "dir seg = 1" and "dir_k seg = (d0, d1, d2)"
    and "1 / 1000000 \<le> \<bar>d0\<bar>" and "1 / 1000000 \<le> \<bar>d1\<bar>" and "1 / 1000000 \<le> \<bar>d2\<bar>"
    and "psi < length h" and "h ! psi = Field v"
  shows "returned_field (rotate_psi lib h psi seg) = Some (Field v)"
  using rotate_psi_110_field [OF assms(1,2,6,7), of lib] assms(3-5) by simp

theorem rotate_psi_110_unrotated_witness:
  "dir segment_skew = 1 \<and> dir_k segment_skew = (3 / 5, 16 / 25, 12 / 25) \<and>
   (1 / 1000000 :: real) \<le> \<bar>3 / 5\<bar> \<and> (1 / 1000000 :: real) \<le> \<bar>16 / 25\<bar> \<and>
   (1 / 1000000 :: real) \<le> \<bar>12 / 25\<bar> \<and>
   (0 :: nat) < length [Field [] :: (real \<times> nat \<times> nat) list obj] \<and>
   [Field [] :: (real \<times> nat \<times> nat) list obj] ! 0 = Field [] \<and>
   returned_field (rotate_psi trace_lib [Field []] 0 segment_skew) = Some (Field [])"
proof -
  have a: "dir segment_skew = 1" "dir_k segment_skew = (3 / 5, 16 / 25, 12 / 25)"
    by (simp_all add: segment_skew_def)
  have b: "(1 / 1000000 :: real) \<le> \<bar>3 / 5\<bar>" "(1 / 1000000 :: real) \<le> \<bar>16 / 25\<bar>"
    "(1 / 1000000 :: real) \<le> \<bar>12 / 25\<bar>"
    by simp_all
  have c: "(0 :: nat) < length [Field [] :: (real \<times> nat \<times> nat) list obj]"
    "[Field [] :: (real \<times> nat \<times> nat) list obj] ! 0 = Field []"
    by simp_all
  from rotate_psi_110_unrotated [OF a b c, of trace_lib] a b c show ?thesis
    by simp
qed

text \<open>
  Claim C7, as amended. For a family-1 segment with direction \<open>(d0, d1, d2)\<close> and stored
  angles \<open>(angle0, angle1)\<close>, \<^verbatim>\<open>rotate_psi\<close> returns: the rotation about the axes
  \<open>(0, 1)\<close> by \<open>angle0\<close> (in degrees) when \<open>|d2| < 10\<^sup>-\<^sup>6\<close>; else the rotation about
  \<open>(0, 2)\<close> by \<open>angle1\<close> when \<open>|d1| < 10\<^sup>-\<^sup>6\<close>; else the two rotations composed,
  first about \<open>(0, 1)\<close> by \<open>angle0\<close>, then about \<open>(0, 2)\<close> by \<open>angle1\<close>, when
  \<open>|d0| < 10\<^sup>-\<^sup>6\<close>; else the input field, not rotated.
\<close>

theorem rotate_psi_110_rotations:
  assumes "dir seg = 1" and "dir_k seg = (d0, d1, d2)"
    and "psi < length h" and "h ! psi = Field v"
  shows "returned_field (rotate_psi lib h psi seg) =
     Some (Field
       (if \<bar>d2\<bar> < 1 / 1000000 then nd_rotate lib v (degrees (fst (rot_angle seg))) (0, 1)
        else if \<bar>d1\<bar> < 1 / 1000000 then nd_rotate lib v (degrees (snd (rot_angle seg))) (0, 2)
        else if \<bar>d0\<bar> < 1 / 1000000 then
          nd_rotate lib (nd_rotate lib v (degrees (fst (rot_angle seg))) (0, 1))
            (degrees (snd (rot_angle seg))) (0, 2)
        else v))"
  using assms by (rule rotate_psi_110_field)

theorem rotate_psi_110_rotations_witness:
  "dir segment_011 = 1 \<and> dir_k segment_011 = (0, l_110, l_110) \<and>
   (0 :: nat) < length [Field [] :: (real \<times> nat \<times> nat) list obj] \<and>
   [Field [] :: (real \<times> nat \<times> nat) list obj] ! 0 = Field [] \<and>
   returned_field (rotate_psi trace_lib [Field []] 0 segment_011) =
     Some (Field [(- 90, 0, 1), (- 45, 0, 2)])"
proof -
  have a: "dir segment_011 = 1" "dir_k segment_011 = (0, l_110, l_110)"
    by (simp_all add: segment_011_def)
  have c: "(0 :: nat) < length [Field [] :: (real \<times> nat \<times> nat) list obj]"
    "[Field [] :: (real \<times> nat \<times> nat) list obj] ! 0 = Field []"
    by simp_all
  have ang: "rot_angle segment_011 = (- (pi / 2), - (pi / 4))"
    by (simp add: segment_011_def)
  have l: "\<not> \<bar>l_110\<bar> < 1 / 1000000" "\<bar>0 :: real\<bar> < 1 / 1000000"
    using l_110_bounds(1) by simp_all
  have rhs: "(if \<bar>l_110\<bar> < 1 / 1000000
        then nd_rotate trace_lib [] (degrees (fst (rot_angle segment_011))) (0, 1)
        else if \<bar>l_110\<bar> < 1 / 1000000
          then nd_rotate trace_lib [] (degrees (snd (rot_angle segment_011))) (0, 2)
          else if \<bar>0 :: real\<bar> < 1 / 1000000
            then nd_rotate trace_lib
                   (nd_rotate trace_lib [] (degrees (fst (rot_angle segment_011))) (0, 1))
                   (degrees (snd (rot_angle segment_011))) (0, 2)
            else []) = [(- 90, 0, 1), (- 45, 0, 2)]"
    unfolding if_not_P [OF l(1)] if_P [OF l(2)]
    by (simp add: ang degrees_angles trace_lib_def)
  from rotate_psi_110_rotations [OF a c, of trace_lib]
  have "returned_field (rotate_psi trace_lib [Field []] 0 segment_011) =
      Some (Field [(- 90, 0, 1), (- 45, 0, 2)])"
    unfolding rhs .
  with a c show ?thesis by simp
qed

text \<open>
  The claim as stated fails both ways. On the (011) segment, which the builder returns
  from \<open>(0, 0, 0)\<close> to \<open>(0, 1, 1)\<close> and whose index \<open>(0, 1, 1)\<close> has a vanishing
  component, the recorded calls are the two rotations (by -90 degrees
  about \<open>(0, 1)\<close>, then by -45 degrees about \<open>(0, 2)\<close>); on a family-1 record whose
  direction has three non-zero components, no rotation is recorded.
\<close>

theorem rotate_psi_110_counterexample:
  "k_path_segment (0, 0, 0) (0, 1, 1) e_k_dict (sqrt 2) = Inr segment_011 \<and>
   indices segment_011 = (0, 1, 1) \<and>
   returned_field (rotate_psi trace_lib [Field []] 0 segment_011) =
     Some (Field [(- 90, 0, 1), (- 45, 0, 2)]) \<and>
   indices segment_skew = (5 / 4, 4 / 3, 1) \<and>
   returned_field (rotate_psi trace_lib [Field []] 0 segment_skew) = Some (Field [])"
proof -
  have l: "\<not> \<bar>l_110\<bar> < 1 / 1000000" "\<bar>0 :: real\<bar> < 1 / 1000000"
    using l_110_bounds(1) by simp_all
  have ang: "rot_angle segment_011 = (- (pi / 2), - (pi / 4))"
    by (simp add: segment_011_def)
  have "returned_field (rotate_psi trace_lib [Field []] 0 segment_011) =
      Some (Field
       (if \<bar>l_110\<bar> < 1 / 1000000
        then nd_rotate trace_lib [] (degrees (fst (rot_angle segment_011))) (0, 1)
        else if \<bar>l_110\<bar> < 1 / 1000000
          then nd_rotate trace_lib [] (degrees (snd (rot_angle segment_011))) (0, 2)
          else if \<bar>0 :: real\<bar> < 1 / 1000000
            then nd_rotate trace_lib
                   (nd_rotate trace_lib [] (degrees (fst (rot_angle segment_011))) (0, 1))
                   (degrees (snd (rot_angle segment_011))) (0, 2)
            else []))"
    by (rule rotate_psi_110_field) (simp_all add: segment_011_def)
  then have one: "returned_field (rotate_psi trace_lib [Field []] 0 segment_011) =
      Some (Field [(- 90, 0, 1), (- 45, 0, 2)])"
    unfolding if_not_P [OF l(1)] if_P [OF l(2)]
    by (simp add: ang degrees_angles trace_lib_def)
  have "returned_field (rotate_psi trace_lib [Field []] 0 segment_skew) =
      Some (Field
       (if \<bar>12 / 25 :: real\<bar> < 1 / 1000000
        then nd_rotate trace_lib [] (degrees (fst (rot_angle segment_skew))) (0, 1)
        else if \<bar>16 / 25 :: real\<bar> < 1 / 1000000
          then nd_rotate trace_lib [] (degrees (snd (rot_angle segment_skew))) (0, 2)
          else if \<bar>3 / 5 :: real\<bar> < 1 / 1000000
            then nd_rotate trace_lib
                   (nd_rotate trace_lib [] (degrees (fst (rot_angle segment_skew))) (0, 1))
                   (degrees (snd (rot_angle segment_skew))) (0, 2)
            else []))"
    by (rule rotate_psi_110_field) (simp_all add: segment_skew_def)
  then have two: "returned_field (rotate_psi trace_lib [Field []] 0 segment_skew) =
      Some (Field [])"
    by simp
  have "indices segment_011 = (0, 1, 1)" "indices segment_skew = (5 / 4, 4 / 3, 1)"
    by (simp_all add: segment_011_def segment_skew_def)
  with one two segment_011_built show ?thesis by simp
qed

text \<open>
  Claim C10. Whenever \<^verbatim>\<open>rotate_psi\<close> or \<^verbatim>\<open>rotate_psi_111\<close> returns, every object of
  the store it was given is unchanged, the input field among them, and the field it
  returns is a new object; and both return when \<open>psi\<close> is a field of the store.
\<close>

theorem reorientation_leaves_input:
  "(\<forall>h' psi_rot r_par r_perp_0 r_perp_1 axis_id.
      rotate_psi lib h psi seg = Some (h', psi_rot, r_par, r_perp_0, r_perp_1, axis_id) \<longrightarrow>
      (\<forall>a < length h. h' ! a = h ! a) \<and> length h \<le> psi_rot \<and> psi_rot < length h') \<and>
   (\<forall>h' psi_rot r_par r_perp_0 r_perp_1 axis_id.
      rotate_psi_111 lib h psi seg = Some (h', psi_rot, r_par, r_perp_0, r_perp_1, axis_id) \<longrightarrow>
      (\<forall>a < length h. h' ! a = h ! a) \<and> length h \<le> psi_rot \<and> psi_rot < length h') \<and>
   (psi < length h \<and> (\<exists>v. h ! psi = Field v) \<longrightarrow>
      (\<exists>res. rotate_psi lib h psi seg = Some res) \<and>
      (\<exists>res. rotate_psi_111 lib h psi seg = Some res))"
proof -
  have A: "\<forall>h' psi_rot r_par r_perp_0 r_perp_1 axis_id.
      rotate_psi lib h psi seg = Some (h', psi_rot, r_par, r_perp_0, r_perp_1, axis_id) \<longrightarrow>
      (\<forall>a < length h. h' ! a = h ! a) \<and> length h \<le> psi_rot \<and> psi_rot < length h'"
  proof (intro allI impI)
    fix h' psi_rot r_par r_perp_0 r_perp_1 axis_id
    assume r: "rotate_psi lib h psi seg = Some (h', psi_rot, r_par, r_perp_0, r_perp_1, axis_id)"
    show "(\<forall>a < length h. h' ! a = h ! a) \<and> length h \<le> psi_rot \<and> psi_rot < length h'"
      using rotate_psi_store(2-4) [OF r] by simp
  qed
  have B: "\<forall>h' psi_rot r_par r_perp_0 r_perp_1 axis_id.
      rotate_psi_111 lib h psi seg = Some (h', psi_rot, r_par, r_perp_0, r_perp_1, axis_id) \<longrightarrow>
      (\<forall>a < length h. h' ! a = h ! a) \<and> length h \<le> psi_rot \<and> psi_rot < length h'"
  proof (intro allI impI)
    fix h' psi_rot r_par r_perp_0 r_perp_1 axis_id
    assume r: "rotate_psi_111 lib h psi seg =
        Some (h', psi_rot, r_par, r_perp_0, r_perp_1, axis_id)"
    show "(\<forall>a < length h. h' ! a = h ! a) \<and> length h \<le> psi_rot \<and> psi_rot < length h'"
      using rotate_psi_111_store(2-4) [OF r] by simp
  qed
  have C: "psi < length h \<and> (\<exists>v. h ! psi = Field v) \<longrightarrow>
      (\<exists>res. rotate_psi lib h psi seg = Some res) \<and>
      (\<exists>res. rotate_psi_111 lib h psi seg = Some res)"
  proof
    assume "psi < length h \<and> (\<exists>v. h ! psi = Field v)"
    then obtain v where v: "psi < length h" "h ! psi = Field v" by blast
    show "(\<exists>res. rotate_psi lib h psi seg = Some res) \<and>
        (\<exists>res. rotate_psi_111 lib h psi seg = Some res)"
      using rotate_psi_returns [OF v] by simp
  qed
  show ?thesis by (rule conjI [OF A conjI [OF B C]])
qed

theorem reorientation_leaves_input_witness:
  "(\<exists>h' psi_rot r_par r_perp_0 r_perp_1 axis_id.
      rotate_psi trace_lib [Field []] 0 segment_011 =
        Some (h', psi_rot, r_par, r_perp_0, r_perp_1, axis_id) \<and>
      h' ! 0 = Field [] \<and> 1 \<le> psi_rot) \<and>
   (\<exists>h' psi_rot r_par r_perp_0 r_perp_1 axis_id.
      rotate_psi_111 trace_lib [Field []] 0 segment_011 =
        Some (h', psi_rot, r_par, r_perp_0, r_perp_1, axis_id) \<and>
      h' ! 0 = Field [] \<and> 1 \<le> psi_rot)"
proof -
  note inst = reorientation_leaves_input [of trace_lib "[Field []]" 0 segment_011]
  have pre: "(0 :: nat) < length [Field [] :: (real \<times> nat \<times> nat) list obj] \<and>
      (\<exists>v. [Field [] :: (real \<times> nat \<times> nat) list obj] ! 0 = Field v)"
    by simp
  from inst pre obtain res where res: "rotate_psi trace_lib [Field []] 0 segment_011 = Some res"
    by blast
  obtain h' psi_rot r_par r_perp_0 r_perp_1 axis_id
    where "res = (h', psi_rot, r_par, r_perp_0, r_perp_1, axis_id)"
    by (cases res) auto
  with res have r: "rotate_psi trace_lib [Field []] 0 segment_011 =
      Some (h', psi_rot, r_par, r_perp_0, r_perp_1, axis_id)" by simp
  with inst have "(\<forall>a < length [Field [] :: (real \<times> nat \<times> nat) list obj]. h' ! a = [Field []] ! a) \<and>
      length [Field [] :: (real \<times> nat \<times> nat) list obj] \<le> psi_rot"
    by blast
  then have one: "h' ! 0 = Field [] \<and> 1 \<le> psi_rot" by simp
  from inst pre obtain res2 where res2: "rotate_psi_111 trace_lib [Field []] 0 segment_011 = Some res2"
    by blast
  obtain h2 psi_rot2 r_par2 r_perp_02 r_perp_12 axis_id2
    where "res2 = (h2, psi_rot2, r_par2, r_perp_02, r_perp_12, axis_id2)"
    by (cases res2) auto
  with res2 have r2: "rotate_psi_111 trace_lib [Field []] 0 segment_011 =
      Some (h2, psi_rot2, r_par2, r_perp_02, r_perp_12, axis_id2)" by simp
  with inst have "(\<forall>a < length [Field [] :: (real \<times> nat \<times> nat) list obj]. h2 ! a = [Field []] ! a) \<and>
      length [Field [] :: (real \<times> nat \<times> nat) list obj] \<le> psi_rot2"
    by blast
  then have two: "h2 ! 0 = Field [] \<and> 1 \<le> psi_rot2" by simp
  from r one r2 two show ?thesis by blast
qed

section \<open>Properties of the (100) bundles\<close>

lemma e_k_dict_entry:
  assumes "py_get e_k_dict i = Inr entry"
  shows "tbl_N_bun entry = 1" and "tbl_origin_bun entry = [(0, 0, 0), (1 / 2, 1 / 2, 1 / 2)]"
proof -
  from assms have "entry \<in> set e_k_dict"
    by (auto simp: py_get_def Let_def split: if_splits)
  then show "tbl_N_bun entry = 1" "tbl_origin_bun entry = [(0, 0, 0), (1 / 2, 1 / 2, 1 / 2)]"
    by (auto simp: e_k_dict_def)
qed

lemma built_segment_bundles:
  assumes "k_path_segment k1 k2 e_k_dict dk_set = Inr seg"
  shows "N_bun seg = 1" and "origin_bun seg = [(0, 0, 0), (1 / 2, 1 / 2, 1 / 2)]"
  using k_path_segment_Inr(8) [OF assms] e_k_dict_entry by auto

lemma chunks_single: "1 \<le> n_cores \<Longrightarrow> chunks_100_110 n_cores [x] = Inr [[x]]"
  by (simp add: chunks_100_110_def Let_def min_def)

lemma py_range_1: "py_range 1 = [0]"
  by (simp add: py_range_def)

lemma linspace_returns: "0 \<le> n \<Longrightarrow> \<exists>xs. linspace a b n = Inr xs"
  by (simp add: linspace_def)

lemma kappa_matrix_returns: "0 \<le> n \<Longrightarrow> \<exists>m. kappa_matrix seg n shift = Inr m"
  by (simp add: kappa_matrix_def Let_def)

lemma set_bundle_100_lengths:
  assumes "set_bundle_100 b seg st = Inr bun"
  shows "0 \<le> Nyquist st"
    and "int (length (k_0_0 bun)) = (if b = 0 then 2 * Nyquist st + 1 else 2 * Nyquist st)"
    and "int (length (k_0_1 bun)) = (if b = 0 then 2 * Nyquist st + 1 else 2 * Nyquist st)"
  using assms
  by (auto simp: set_bundle_100_def Let_def dest!: linspace_length
      split: if_splits sum.splits prod.splits)

lemma set_bundle_100_returns:
  assumes "0 \<le> Nyquist st" and "py_get (origin_bun seg) b = Inr origin"
  shows "\<exists>bun. set_bundle_100 b seg st = Inr bun"
proof -
  obtain mask_1 mask_2 where m: "get_masks (dir seg) (indices seg) = (mask_1, mask_2)"
    by (cases "get_masks (dir seg) (indices seg)") auto
  show ?thesis
  proof (cases "b = 0")
    case True
    with assms m show ?thesis
      by (simp add: set_bundle_100_def Let_def linspace_def linspace_points_def kappa_matrix_def)
  next
    case False
    with assms m show ?thesis
      by (simp add: set_bundle_100_def Let_def linspace_def linspace_points_def kappa_matrix_def)
  qed
qed

text \<open>
  Claim C2, as amended. For a segment built with the repository's direction table (whose
  entries all have \<^verbatim>\<open>N_bun = 1\<close>), the driver enumerates \<^verbatim>\<open>range(N_bun)\<close>, which is
  the bundle index 0 alone, and processes it as the one chunk \<open>[0]\<close>. Whenever
  \<^verbatim>\<open>set_bundle_100\<close> returns, the Nyquist limit \<open>N\<close> is not negative and both in-plane
  coordinate arrays have length \<open>2N + 1\<close> for \<open>b = 0\<close> and \<open>2N\<close> for any other \<open>b\<close>;
  and it returns for \<open>b = 0\<close> and \<open>b = 1\<close> when \<open>N \<ge> 0\<close> and the segment has its two
  bundle origins.
\<close>

theorem bundles_100:
  "(\<forall>k1 k2 dk_set seg n_cores.
      k_path_segment k1 k2 e_k_dict dk_set = Inr seg \<and> 1 \<le> n_cores \<longrightarrow>
      py_range (N_bun seg) = [0] \<and>
      chunks_100_110 n_cores (py_range (N_bun seg)) = Inr [[0]]) \<and>
   (\<forall>b seg st bun.
      set_bundle_100 b seg st = Inr bun \<longrightarrow>
      0 \<le> Nyquist st \<and>
      int (length (k_0_0 bun)) = (if b = 0 then 2 * Nyquist st + 1 else 2 * Nyquist st) \<and>
      int (length (k_0_1 bun)) = (if b = 0 then 2 * Nyquist st + 1 else 2 * Nyquist st)) \<and>
   (\<forall>b seg st.
      0 \<le> Nyquist st \<and> (b = 0 \<or> b = 1) \<and> length (origin_bun seg) = 2 \<longrightarrow>
      (\<exists>bun. set_bundle_100 b seg st = Inr bun))"
proof -
  have A: "\<forall>k1 k2 dk_set seg n_cores.
      k_path_segment k1 k2 e_k_dict dk_set = Inr seg \<and> 1 \<le> n_cores \<longrightarrow>
      py_range (N_bun seg) = [0] \<and>
      chunks_100_110 n_cores (py_range (N_bun seg)) = Inr [[0]]"
  proof (intro allI impI)
    fix k1 k2 dk_set seg and n_cores :: int
    assume a: "k_path_segment k1 k2 e_k_dict dk_set = Inr seg \<and> 1 \<le> n_cores"
    then have "N_bun seg = 1" using built_segment_bundles(1) by blast
    with a show "py_range (N_bun seg) = [0] \<and>
        chunks_100_110 n_cores (py_range (N_bun seg)) = Inr [[0]]"
      by (simp add: py_range_1 chunks_single)
  qed
  have B: "\<forall>b seg st bun.
      set_bundle_100 b seg st = Inr bun \<longrightarrow>
      0 \<le> Nyquist st \<and>
      int (length (k_0_0 bun)) = (if b = 0 then 2 * Nyquist st + 1 else 2 * Nyquist st) \<and>
      int (length (k_0_1 bun)) = (if b = 0 then 2 * Nyquist st + 1 else 2 * Nyquist st)"
  proof (intro allI impI)
    fix b seg st bun
    assume a: "set_bundle_100 b seg st = Inr bun"
    show "0 \<le> Nyquist st \<and>
        int (length (k_0_0 bun)) = (if b = 0 then 2 * Nyquist st + 1 else 2 * Nyquist st) \<and>
        int (length (k_0_1 bun)) = (if b = 0 then 2 * Nyquist st + 1 else 2 * Nyquist st)"
      using set_bundle_100_lengths [OF a] by blast
  qed
  have C: "\<forall>b seg st.
      0 \<le> Nyquist st \<and> (b = 0 \<or> b = 1) \<and> length (origin_bun seg) = 2 \<longrightarrow>
      (\<exists>bun. set_bundle_100 b seg st = Inr bun)"
  proof (intro allI impI)
    fix b :: int and seg :: k_segment and st :: k_structure
    assume a: "0 \<le> Nyquist st \<and> (b = 0 \<or> b = 1) \<and> length (origin_bun seg) = 2"
    then have "py_get (origin_bun seg) b = Inr (origin_bun seg ! nat b)"
      by (auto simp: py_get_def)
    with a show "\<exists>bun. set_bundle_100 b seg st = Inr bun"
      using set_bundle_100_returns by blast
  qed
  show ?thesis by (rule conjI [OF A conjI [OF B C]])
qed

theorem bundles_100_witness:
  "\<exists>seg. k_path_segment (0, 0, 0) (1, 0, 0) e_k_dict (1 / 10) = Inr seg \<and>
     chunks_100_110 4 (py_range (N_bun seg)) = Inr [[0]] \<and>
     (\<exists>bun. set_bundle_100 0 seg \<lparr>n_dir = [1, 0, 0], pos_dir = [[0], [- 1], [- 1]], Nyquist = 2\<rparr> =
          Inr bun \<and> length (k_0_0 bun) = 5 \<and> length (k_0_1 bun) = 5) \<and>
     (\<exists>bun. set_bundle_100 1 seg \<lparr>n_dir = [1, 0, 0], pos_dir = [[0], [- 1], [- 1]], Nyquist = 2\<rparr> =
          Inr bun \<and> length (k_0_0 bun) = 4 \<and> length (k_0_1 bun) = 4)"
proof -
  let ?st = "\<lparr>n_dir = [1, 0, 0], pos_dir = [[0], [- 1], [- 1]], Nyquist = 2\<rparr>"
  have si: "set_index (1, 0, 0) = Inr ((1, 0, 0), 0)"
    by (simp add: set_index_def py_int_def)
  have pr: "py_round 10 = 10" "py_round 1 = 1"
    by (simp_all add: py_round_def)
  obtain seg where seg: "k_path_segment (0, 0, 0) (1, 0, 0) e_k_dict (1 / 10) = Inr seg"
    and org: "length (origin_bun seg) = 2"
    by (simp add: k_path_segment_def norm3_def si e_k_dict_def py_get_def direction_sign_def
        closest_def py_int_def pr linspace_def linspace_points_def Let_def upt_rec)
  note A = bundles_100 [THEN conjunct1, rule_format]
  note B = bundles_100 [THEN conjunct2, THEN conjunct1, rule_format]
  note C = bundles_100 [THEN conjunct2, THEN conjunct2, rule_format]
  have "k_path_segment (0, 0, 0) (1, 0, 0) e_k_dict (1 / 10) = Inr seg \<and> (1 :: int) \<le> 4"
    using seg by simp
  from A [OF this]
  have ch: "chunks_100_110 4 (py_range (N_bun seg)) = Inr [[0]]"
    by (rule conjunct2)
  have pre0: "0 \<le> Nyquist ?st \<and> ((0 :: int) = 0 \<or> (0 :: int) = 1) \<and>
      length (origin_bun seg) = 2"
    using org by simp
  have pre1: "0 \<le> Nyquist ?st \<and> ((1 :: int) = 0 \<or> (1 :: int) = 1) \<and>
      length (origin_bun seg) = 2"
    using org by simp
  from C [OF pre0] obtain bun0 where b0: "set_bundle_100 0 seg ?st = Inr bun0"
    by auto
  from C [OF pre1] obtain bun1 where b1: "set_bundle_100 1 seg ?st = Inr bun1"
    by auto
  from B [OF b0] have l0: "length (k_0_0 bun0) = 5 \<and> length (k_0_1 bun0) = 5"
    by simp
  from B [OF b1] have l1: "length (k_0_0 bun1) = 4 \<and> length (k_0_1 bun1) = 4"
    by simp
  from seg ch b0 l0 b1 l1 show ?thesis by blast
qed

text \<open>
  The claim as stated fails on the (100) segment from \<open>(0, 0, 0)\<close> to \<open>(1, 0, 0)\<close>: its
  family is 0 and its bundle count is 1, so the driver's list of bundle indices is
  \<open>[0]\<close>, and the bundle index 1 is not enumerated.
\<close>

theorem bundles_100_counterexample:
  "map_sum id dir (k_path_segment (0, 0, 0) (1, 0, 0) e_k_dict (1 / 10)) = Inr 0 \<and>
   map_sum id N_bun (k_path_segment (0, 0, 0) (1, 0, 0) e_k_dict (1 / 10)) = Inr 1 \<and>
   py_range 1 = [0] \<and> chunks_100_110 4 (py_range 1) = Inr [[0]] \<and> 1 \<notin> set (py_range 1)"
proof -
  have si: "set_index (1, 0, 0) = Inr ((1, 0, 0), 0)"
    by (simp add: set_index_def py_int_def)
  have pr: "py_round 10 = 10" "py_round 1 = 1"
    by (simp_all add: py_round_def)
  have "map_sum id dir (k_path_segment (0, 0, 0) (1, 0, 0) e_k_dict (1 / 10)) = Inr 0"
    "map_sum id N_bun (k_path_segment (0, 0, 0) (1, 0, 0) e_k_dict (1 / 10)) = Inr 1"
    by (simp_all add: k_path_segment_def norm3_def si e_k_dict_def py_get_def direction_sign_def
        closest_def py_int_def pr linspace_def linspace_points_def Let_def upt_rec)
  then show ?thesis
    by (simp add: py_range_1 chunks_single)
qed


section \<open>Properties of the path assembler\<close>

lemma sorted_shift:
  "sorted_wrt (<) xs \<Longrightarrow> sorted_wrt (<) (map (\<lambda>x. x - (c :: real)) xs)"
  by (simp add: sorted_wrt_map)

lemma sorted_last_max:
  assumes "sorted_wrt (<) xs" and "x \<in> set xs"
  shows "x \<le> last (xs :: real list)"
  using assms
proof (induction xs)
  case Nil
  then show ?case by simp
next
  case (Cons a xs)
  show ?case
  proof (cases "xs = []")
    case True
    with Cons.prems show ?thesis by simp
  next
    case False
    then have "last xs \<in> set xs" by (rule last_in_set)
    with Cons.prems(1) have "a < last xs" by simp
    moreover have "x \<le> last xs" if "x \<in> set xs"
      using Cons.IH that Cons.prems(1) by simp
    ultimately show ?thesis using Cons.prems(2) False by auto
  qed
qed

lemma sorted_hd_min:
  assumes "sorted_wrt (<) xs" and "x \<in> set xs"
  shows "hd xs \<le> (x :: real)"
  using assms by (cases xs) auto

text \<open>
  The invariant of the assembler's loop: the points collected after the placeholder are
  strictly increasing and lie below the running end point.
\<close>

lemma path_loop_increasing:
  assumes "path_loop segs (acc, ticks, e) = Inr (acc', ticks', e')"
    and "\<forall>seg \<in> set segs. sorted_wrt (<) (kappa seg) \<and> 0 < dk seg"
    and "acc \<noteq> []" and "sorted_wrt (<) (tl acc)" and "\<forall>x \<in> set (tl acc). x < e"
  shows "acc' \<noteq> [] \<and> sorted_wrt (<) (tl acc') \<and> (\<forall>x \<in> set (tl acc'). x < e')"
  using assms
proof (induction segs arbitrary: acc ticks e)
  case Nil
  then show ?case by simp
next
  case (Cons segment rest)
  from Cons.prems(1) obtain k0 ks where k: "kappa segment = k0 # ks"
    by (cases "kappa segment") auto
  let ?s = "map (\<lambda>x. x - (k0 - e)) (kappa segment)"
  let ?e = "last ?s + dk segment"
  from Cons.prems(1) k
  have loop: "path_loop rest (acc @ ?s, ticks @ [?e], ?e) = Inr (acc', ticks', e')"
    by (simp add: Let_def)
  have srt: "sorted_wrt (<) (kappa segment)" and dkpos: "0 < dk segment"
    using Cons.prems(2) by simp_all
  have s_sorted: "sorted_wrt (<) ?s"
    using srt by (rule sorted_shift)
  have s_ne: "?s \<noteq> []" using k by simp
  have s_hd: "hd ?s = e" using k by simp
  have lower: "e \<le> y" if "y \<in> set ?s" for y
    using sorted_hd_min [OF s_sorted that] s_hd by simp
  have upper: "y < ?e" if "y \<in> set ?s" for y
    using sorted_last_max [OF s_sorted that] dkpos by simp
  have tl_eq: "tl (acc @ ?s) = tl acc @ ?s"
    using Cons.prems(3) by simp
  have "sorted_wrt (<) (tl acc @ ?s)"
    using Cons.prems(4,5) s_sorted lower by (fastforce simp: sorted_wrt_append)
  then have a: "sorted_wrt (<) (tl (acc @ ?s))"
    by (simp only: tl_eq)
  have "hd ?s \<in> set ?s" using s_ne by (rule hd_in_set)
  then have "hd ?s < ?e" by (rule upper)
  then have "e < ?e" by (simp only: s_hd)
  then have "\<forall>x \<in> set (tl acc @ ?s). x < ?e"
    using Cons.prems(5) upper by fastforce
  then have b: "\<forall>x \<in> set (tl (acc @ ?s)). x < ?e"
    by (simp only: tl_eq)
  have c: "acc @ ?s \<noteq> []" using s_ne by simp
  have d: "\<forall>seg \<in> set rest. sorted_wrt (<) (kappa seg) \<and> 0 < dk seg"
    using Cons.prems(2) by simp
  show ?case by (rule Cons.IH [OF loop d c a b])
qed

lemma path_loop_returns:
  assumes "\<forall>seg \<in> set segs. kappa seg \<noteq> []"
  shows "\<exists>st'. path_loop segs (acc, ticks, e) = Inr st'"
  using assms
proof (induction segs arbitrary: acc ticks e)
  case Nil
  then show ?case by simp
next
  case (Cons segment rest)
  then obtain k0 ks where "kappa segment = k0 # ks"
    by (cases "kappa segment") auto
  with Cons show ?case by (simp add: Let_def)
qed

text \<open>
  Claim C9. For segments that each have a strictly increasing sample sequence and a
  positive spacing, the array \<^verbatim>\<open>kappa\<close> that \<^verbatim>\<open>organize_output_path\<close> returns is strictly
  increasing throughout, across the segment boundaries and up to the closing point it
  appends; and it does return when no segment is without samples and \<^verbatim>\<open>k_path\<close> has a
  segment for every pair of consecutive path points.
\<close>

theorem organize_output_path_increasing:
  assumes "\<forall>seg \<in> set k_path. sorted_wrt (<) (kappa seg) \<and> 0 < dk seg"
  shows "(\<forall>kappa_out ticks.
        organize_output_path k_path k_path_points = Inr (kappa_out, ticks) \<longrightarrow>
        sorted_wrt (<) kappa_out) \<and>
     ((\<forall>seg \<in> set k_path. kappa seg \<noteq> []) \<and> length k_path_points \<le> length k_path + 1 \<longrightarrow>
        (\<exists>kappa_out ticks. organize_output_path k_path k_path_points = Inr (kappa_out, ticks)))"
proof (rule conjI)
  let ?segs = "take (nat (int (length k_path_points) - 1)) k_path"
  have pre: "\<forall>seg \<in> set ?segs. sorted_wrt (<) (kappa seg) \<and> 0 < dk seg"
    using assms by (meson in_set_takeD)
  show "\<forall>kappa_out ticks.
      organize_output_path k_path k_path_points = Inr (kappa_out, ticks) \<longrightarrow>
      sorted_wrt (<) kappa_out"
  proof (intro allI impI)
    fix kappa_out ticks
    assume "organize_output_path k_path k_path_points = Inr (kappa_out, ticks)"
    then obtain acc' ticks' e'
      where loop: "path_loop ?segs ([0], [], 0) = Inr (acc', ticks', e')"
        and out: "kappa_out = tl (acc' @ [e'])"
      by (auto simp: organize_output_path_def Let_def split: sum.splits if_splits)
    have "acc' \<noteq> [] \<and> sorted_wrt (<) (tl acc') \<and> (\<forall>x \<in> set (tl acc'). x < e')"
      by (rule path_loop_increasing [OF loop pre]) simp_all
    then show "sorted_wrt (<) kappa_out"
      unfolding out by (simp add: sorted_wrt_append)
  qed
  show "(\<forall>seg \<in> set k_path. kappa seg \<noteq> []) \<and> length k_path_points \<le> length k_path + 1 \<longrightarrow>
      (\<exists>kappa_out ticks. organize_output_path k_path k_path_points = Inr (kappa_out, ticks))"
  proof
    assume a: "(\<forall>seg \<in> set k_path. kappa seg \<noteq> []) \<and> length k_path_points \<le> length k_path + 1"
    then have "\<forall>seg \<in> set ?segs. kappa seg \<noteq> []"
      by (meson in_set_takeD)
    from path_loop_returns [OF this, of "[0]" "[]" 0]
    obtain st' where "path_loop ?segs ([0], [], 0) = Inr st'" by blast
    with a show "\<exists>kappa_out ticks. organize_output_path k_path k_path_points = Inr (kappa_out, ticks)"
      by (cases st') (auto simp: organize_output_path_def Let_def)
  qed
qed

theorem organize_output_path_increasing_witness:
  "organize_output_path [segment_011, segment_skew] [(), (), ()] = Inr ([0, sqrt 2, sqrt 2 + 1], [0, sqrt 2, sqrt 2 + 1]) \<and>
   sorted_wrt (<) [0, sqrt 2, sqrt 2 + 1]"
proof -
  have pre: "\<forall>seg \<in> set [segment_011, segment_skew]. sorted_wrt (<) (kappa seg) \<and> 0 < dk seg"
    by (simp add: segment_011_def segment_skew_def)
  have ev: "organize_output_path [segment_011, segment_skew] [(), (), ()] =
      Inr ([0, sqrt 2, sqrt 2 + 1], [0, sqrt 2, sqrt 2 + 1])"
    by (simp add: organize_output_path_def segment_011_def segment_skew_def Let_def)
  from organize_output_path_increasing [OF pre, of "[(), (), ()]"] ev
  have "sorted_wrt (<) [0, sqrt 2, sqrt 2 + 1]" by blast
  with ev show ?thesis by simp
qed

section \<open>The driver on a whole segment\<close>

text \<open>The accumulation returns when every item has a weight of the right length.\<close>

lemma accumulate_returns:
  assumes "\<forall>item \<in> set chunk. \<exists>w. weight item = Some w \<and> length w = n"
  shows "\<exists>r. accumulate_chunk weight n chunk = Some r"
  using assms
proof (induction chunk rule: rev_induct)
  case Nil
  then show ?case by (simp add: accumulate_chunk_def)
next
  case (snoc x xs)
  then obtain r where r: "accumulate_chunk weight n xs = Some r" by auto
  then have "length r = n" by (rule accumulate_length)
  moreover from snoc.prems obtain w where "weight x = Some w" "length w = n" by auto
  ultimately show ?case
    using r by (simp add: accumulate_chunk_def add_item_def np_iadd_def)
qed

lemma kappa_matrix_rows: "kappa_matrix seg n shift = Inr m \<Longrightarrow> length m = length (kappa seg)"
  by (auto simp: kappa_matrix_def Let_def split: if_splits)

lemma set_bundle_100_rows:
  "set_bundle_100 b seg st = Inr bun \<Longrightarrow> length (kappa_b bun) = length (kappa seg)"
  by (auto simp: set_bundle_100_def Let_def dest: kappa_matrix_rows
      split: if_splits sum.splits prod.splits)

lemma item_weight_100_returns:
  assumes "shapes_match psi_rot r_par r_perp_0 r_perp_1 axis_id"
    and "0 \<le> Nyquist st" and "py_get (origin_bun seg) b = Inr origin"
  shows "\<exists>w. item_weight_100 seg st psi_rot r_par r_perp_0 r_perp_1 axis_id k_unit dx b = Some w \<and>
     length w = length (kappa seg)"
proof -
  from set_bundle_100_returns [OF assms(2,3)]
  obtain bun where bun: "set_bundle_100 b seg st = Inr bun" by blast
  from set_bundle_100_rows [OF bun] bun assms(1) show ?thesis
    by (simp add: item_weight_100_def bundle_weight_100_def Let_def)
qed

text \<open>
  A (100) chunk is processed without an exception when the ramps fit the field, the
  Nyquist limit is not negative, every bundle index has an origin and the accumulator
  has one entry per sample.
\<close>

lemma process_bundle_chunk_100_returns:
  assumes "shapes_match psi_rot r_par r_perp_0 r_perp_1 axis_id"
    and "0 \<le> Nyquist st"
    and "\<forall>b \<in> set chunk. \<exists>origin. py_get (origin_bun seg) b = Inr origin"
    and "length (phi_folded seg) = length (kappa seg)"
  shows "\<exists>r. process_bundle_chunk_100 chunk seg st psi_rot r_par r_perp_0 r_perp_1 axis_id
       k_unit dx = Some r \<and> length r = length (kappa seg)"
proof -
  have "\<forall>b \<in> set chunk. \<exists>w.
      item_weight_100 seg st psi_rot r_par r_perp_0 r_perp_1 axis_id k_unit dx b = Some w \<and>
      length w = length (phi_folded seg)"
    using item_weight_100_returns [OF assms(1,2)] assms(3,4) by fastforce
  from accumulate_returns [OF this] obtain r
    where r: "process_bundle_chunk_100 chunk seg st psi_rot r_par r_perp_0 r_perp_1 axis_id
       k_unit dx = Some r"
    by (auto simp: process_bundle_chunk_100_def)
  then have "length r = length (phi_folded seg)"
    unfolding process_bundle_chunk_100_def by (rule accumulate_length)
  with r assms(4) show ?thesis by simp
qed

text \<open>
  The driver's result for a segment is the result of processing its whole work list as
  one chunk, whatever the number of cores.
\<close>

lemma bse_100_one_chunk:
  assumes "chunks_100_110 n_cores (py_range (N_bun seg)) = Inr chunks"
  shows "bse_100 n_cores seg st psi_rot r_par r_perp_0 r_perp_1 axis_id k_unit dx =
     process_bundle_chunk_100 (py_range (N_bun seg)) seg st psi_rot r_par r_perp_0 r_perp_1
       axis_id k_unit dx"
  using assms chunks_100_110_concat [OF assms]
  by (simp add: bse_100_def process_bundle_chunk_100_def reduce_accumulate Let_def)

lemma bse_110_one_chunk:
  assumes "chunks_100_110 n_cores (tensordot_operations (N_bun seg) (Nyquist st)) = Inr chunks"
  shows "bse_110 n_cores seg st psi_rot r_par r_perp_0 r_perp_1 axis_id k_unit dx =
     process_bundle_chunk_110 (tensordot_operations (N_bun seg) (Nyquist st)) seg st psi_rot
       r_par r_perp_0 r_perp_1 axis_id k_unit dx (Nyquist st)"
  using assms chunks_100_110_concat [OF assms]
  by (simp add: bse_110_def process_bundle_chunk_110_def reduce_accumulate Let_def)

lemma bse_111_one_chunk:
  assumes "chunks_111 n_cores (bundle_width_layer_combinations (N_bun seg) (Nyquist st)) =
      Inr chunks"
  shows "bse_111 n_cores seg st psi_rot r_par r_perp_0 r_perp_1 axis_id k_unit dx =
     process_bundle_chunk_111 (bundle_width_layer_combinations (N_bun seg) (Nyquist st)) seg st
       psi_rot r_par r_perp_0 r_perp_1 axis_id k_unit dx"
  using assms chunks_111_concat [OF assms]
  by (simp add: bse_111_def process_bundle_chunk_111_def reduce_accumulate Let_def)

end
